theory Spec2Isabelle
  imports Complex_Main
begin

section \<open>Cells, tables and errors\<close>

text \<open>
  The module \<^verbatim>\<open>pylifemap/aggregations.py\<close> is a pipeline of dataframe operations.
  A table is modelled row-major: the list of its column names and the list of its rows,
  every row holding one cell per column. A cell is a null, an integer, a float (an exact
  rational stands for the float, so rounding is not modelled), a string, a list, or the
  JSON text that \<^verbatim>\<open>struct.json_encode\<close> produces for a struct, kept as the list of its
  fields. Column dtypes are not carried: an operation that depends on a dtype looks at
  the cells.
\<close>

datatype val =
    VNull
  | VInt int
  | VFloat rat
  | VStr string
  | VList "val list"
  | VJson "(string \<times> val) list"

record frame =
  columns :: "string list"
  rows :: "val list list"

text \<open>
  What the caller hands over as \<^verbatim>\<open>d\<close>: a pandas table, a polars table, or any other
  Python object.
\<close>

datatype pyobj =
    PandasDataFrame frame
  | PolarsDataFrame frame
  | OtherObject

text \<open>
  \<^verbatim>\<open>TypeError\<close> and \<^verbatim>\<open>ValueError\<close> are Python's and carry their message. The others are
  the dataframe engine's exceptions (none of them is a \<^verbatim>\<open>ValueError\<close>) and carry the
  name of the column they are about.
\<close>

datatype error =
    TypeError string
  | ValueError string
  | ColumnNotFoundError string
  | DuplicateError string
  | InvalidOperationError string
  | ComputeError string
  | ShapeError

definition bindE :: "error + 'a \<Rightarrow> ('a \<Rightarrow> error + 'b) \<Rightarrow> error + 'b" where
  "bindE m f = (case m of Inl e \<Rightarrow> Inl e | Inr x \<Rightarrow> f x)"

fun traverse :: "('a \<Rightarrow> error + 'b) \<Rightarrow> 'a list \<Rightarrow> error + 'b list" where
  "traverse f [] = Inr []"
| "traverse f (x # xs) =
     (case f x of
        Inl e \<Rightarrow> Inl e
      | Inr y \<Rightarrow> (case traverse f xs of Inl e \<Rightarrow> Inl e | Inr ys \<Rightarrow> Inr (y # ys)))"

fun index_of :: "string list \<Rightarrow> string \<Rightarrow> nat" where
  "index_of [] c = 0"
| "index_of (x # xs) c = (if x = c then 0 else Suc (index_of xs c))"

text \<open>The cell of row \<open>r\<close> in column \<open>c\<close>; every caller checks first that the column exists.\<close>

definition cell :: "string list \<Rightarrow> val list \<Rightarrow> string \<Rightarrow> val" where
  "cell cs r c = r ! index_of cs c"

definition get_column :: "frame \<Rightarrow> string \<Rightarrow> val list" where
  "get_column d c = map (\<lambda>r. cell (columns d) r c) (rows d)"

text \<open>A table is well formed when its column names are distinct and every row has one
  cell per column; both engines guarantee it for the tables they build.\<close>

definition wf_frame :: "frame \<Rightarrow> bool" where
  "wf_frame d \<longleftrightarrow>
     distinct (columns d) \<and> (\<forall>r \<in> set (rows d). length r = length (columns d))"

section \<open>The strict cast to a 32-bit integer\<close>

text \<open>
  \<^verbatim>\<open>Expr.cast(pl.Int32)\<close> is called with its default \<^verbatim>\<open>strict=True\<close>: a cell that has
  no 32-bit value makes the whole cast raise. Nulls stay null, a float loses its
  fractional part, a string is read as a decimal integer.
\<close>

definition int32_range :: "int \<Rightarrow> bool" where
  "int32_range i \<longleftrightarrow> - (2 ^ 31) \<le> i \<and> i < 2 ^ 31"

definition digit_of :: "char \<Rightarrow> nat option" where
  "digit_of c =
     (let n = (of_char c :: nat) in if 48 \<le> n \<and> n \<le> 57 then Some (n - 48) else None)"

fun parse_digits :: "nat \<Rightarrow> string \<Rightarrow> nat option" where
  "parse_digits acc [] = Some acc"
| "parse_digits acc (c # cs) =
     (case digit_of c of None \<Rightarrow> None | Some k \<Rightarrow> parse_digits (10 * acc + k) cs)"

definition parse_int :: "string \<Rightarrow> int option" where
  "parse_int s =
     (case s of
        [] \<Rightarrow> None
      | c # cs \<Rightarrow>
          if c = CHR ''-'' then
            (if cs = [] then None else map_option (\<lambda>n. - int n) (parse_digits 0 cs))
          else if c = CHR ''+'' then
            (if cs = [] then None else map_option int (parse_digits 0 cs))
          else map_option int (parse_digits 0 s))"

definition trunc_rat :: "rat \<Rightarrow> int" where
  "trunc_rat q = (if 0 \<le> q then \<lfloor>q\<rfloor> else \<lceil>q\<rceil>)"

definition checked_int32 :: "string \<Rightarrow> int \<Rightarrow> error + val" where
  "checked_int32 name i =
     (if int32_range i then Inr (VInt i) else Inl (InvalidOperationError name))"

fun cast_Int32 :: "string \<Rightarrow> val \<Rightarrow> error + val" where
  "cast_Int32 name VNull = Inr VNull"
| "cast_Int32 name (VInt i) = checked_int32 name i"
| "cast_Int32 name (VFloat q) = checked_int32 name (trunc_rat q)"
| "cast_Int32 name (VStr s) =
     (case parse_int s of
        None \<Rightarrow> Inl (InvalidOperationError name)
      | Some i \<Rightarrow> checked_int32 name i)"
| "cast_Int32 name (VList xs) = Inl (InvalidOperationError name)"
| "cast_Int32 name (VJson fs) = Inl (InvalidOperationError name)"

section \<open>Expressions, \<^verbatim>\<open>select\<close> and \<^verbatim>\<open>with_columns\<close>\<close>

text \<open>
  The expressions the module builds: \<^verbatim>\<open>pl.col(c)\<close>, \<^verbatim>\<open>e.alias(n)\<close>,
  \<^verbatim>\<open>e.cast(pl.Int32)\<close>, \<^verbatim>\<open>pl.lit(v)\<close> and
  \<^verbatim>\<open>pl.struct(pl.col(cs)).struct.json_encode()\<close>. All of them work row by row.
\<close>

datatype expr =
    Col string
  | Alias expr string
  | CastInt32 expr
  | Lit val
  | StructJsonEncode "string list"

fun output_name :: "expr \<Rightarrow> string" where
  "output_name (Col c) = c"
| "output_name (Alias e n) = n"
| "output_name (CastInt32 e) = output_name e"
| "output_name (Lit v) = ''literal''"
| "output_name (StructJsonEncode cs) = (case cs of [] \<Rightarrow> [] | c # _ \<Rightarrow> c)"

definition first_missing :: "string list \<Rightarrow> string list \<Rightarrow> error option" where
  "first_missing cs names =
     (case filter (\<lambda>n. n \<notin> set cs) names of
        [] \<Rightarrow> None
      | n # _ \<Rightarrow> Some (ColumnNotFoundError n))"

text \<open>Resolving an expression against the column names: the first column it names that
  the table lacks. A struct of no field at all cannot be built.\<close>

fun expr_check :: "string list \<Rightarrow> expr \<Rightarrow> error option" where
  "expr_check cs (Col c) = first_missing cs [c]"
| "expr_check cs (Alias e n) = expr_check cs e"
| "expr_check cs (CastInt32 e) = expr_check cs e"
| "expr_check cs (Lit v) = None"
| "expr_check cs (StructJsonEncode fs) =
     (if fs = [] then Some (ComputeError []) else first_missing cs fs)"

fun first_error :: "error option list \<Rightarrow> error option" where
  "first_error [] = None"
| "first_error (None # es) = first_error es"
| "first_error (Some e # es) = Some e"

fun eval_row :: "string list \<Rightarrow> val list \<Rightarrow> expr \<Rightarrow> error + val" where
  "eval_row cs r (Col c) = Inr (cell cs r c)"
| "eval_row cs r (Alias e n) = eval_row cs r e"
| "eval_row cs r (CastInt32 e) = bindE (eval_row cs r e) (cast_Int32 (output_name e))"
| "eval_row cs r (Lit v) = Inr v"
| "eval_row cs r (StructJsonEncode fs) = Inr (VJson (map (\<lambda>f. (f, cell cs r f)) fs))"

fun first_duplicate :: "string list \<Rightarrow> string option" where
  "first_duplicate [] = None"
| "first_duplicate (n # ns) = (if n \<in> set ns then Some n else first_duplicate ns)"

text \<open>\<^verbatim>\<open>DataFrame.select(exprs)\<close>: the result has exactly the expressions' columns, in
  their order.\<close>

definition select :: "expr list \<Rightarrow> frame \<Rightarrow> error + frame" where
  "select es d =
     (case first_error (map (expr_check (columns d)) es) of
        Some e \<Rightarrow> Inl e
      | None \<Rightarrow>
          (case first_duplicate (map output_name es) of
             Some n \<Rightarrow> Inl (DuplicateError n)
           | None \<Rightarrow>
               bindE (traverse (\<lambda>r. traverse (eval_row (columns d) r) es) (rows d))
                 (\<lambda>rs. Inr \<lparr>columns = map output_name es, rows = rs\<rparr>)))"

text \<open>\<^verbatim>\<open>DataFrame.with_columns(exprs)\<close>: every expression is evaluated on the table as it
  was; a result that has the name of an existing column replaces it in place, the others
  are appended in order.\<close>

definition with_columns :: "expr list \<Rightarrow> frame \<Rightarrow> error + frame" where
  "with_columns es d =
     (case first_error (map (expr_check (columns d)) es) of
        Some e \<Rightarrow> Inl e
      | None \<Rightarrow>
          (case first_duplicate (map output_name es) of
             Some n \<Rightarrow> Inl (DuplicateError n)
           | None \<Rightarrow>
               (let names = map output_name es;
                    cs' = columns d @ filter (\<lambda>n. n \<notin> set (columns d)) names
                in bindE
                     (traverse
                        (\<lambda>r. bindE (traverse (eval_row (columns d) r) es)
                           (\<lambda>vs. Inr (map (\<lambda>c. case map_of (zip names vs) c of
                                                  Some v \<Rightarrow> v
                                                | None \<Rightarrow> cell (columns d) r c) cs')))
                        (rows d))
                     (\<lambda>rs. Inr \<lparr>columns = cs', rows = rs\<rparr>))))"

section \<open>Input normalisation\<close>

definition ensure_polars :: "pyobj \<Rightarrow> error + frame" where
  "ensure_polars d =
     (case d of
        PandasDataFrame f \<Rightarrow> Inr f
      | PolarsDataFrame f \<Rightarrow> Inr f
      | OtherObject \<Rightarrow> Inl (TypeError ''data must be a pandas or polars DataFrame.''))"

definition ensure_int32 :: "frame \<Rightarrow> string \<Rightarrow> error + frame" where
  "ensure_int32 d taxid_col = with_columns [CastInt32 (Col taxid_col)] d"

definition ensure_column_exists :: "frame \<Rightarrow> string \<Rightarrow> error + unit" where
  "ensure_column_exists d column =
     (if column \<notin> set (columns d)
      then Inl (ValueError (column @ '' is not a column of the DataFrame.''))
      else Inr ())"

section \<open>Table operations of the dataframe engine\<close>

text \<open>
  \<^verbatim>\<open>left.join(right, on=c, how="left")\<close>: every left row is kept; it is paired with each
  right row that has the same non-null key, or with nulls when there is none. The right
  table's other columns follow the left table's, with the suffix \<^verbatim>\<open>_right\<close> where the
  name is taken.
\<close>

definition join_left :: "frame \<Rightarrow> frame \<Rightarrow> string \<Rightarrow> error + frame" where
  "join_left l r c =
     (if \<not> (c \<in> set (columns l) \<and> c \<in> set (columns r)) then Inl (ColumnNotFoundError c)
      else
        (let rest = filter (\<lambda>n. n \<noteq> c) (columns r);
             names = map (\<lambda>n. if n \<in> set (columns l) then n @ ''_right'' else n) rest
         in case first_duplicate (columns l @ names) of
              Some n \<Rightarrow> Inl (DuplicateError n)
            | None \<Rightarrow>
                Inr \<lparr>columns = columns l @ names,
                     rows = concat (map (\<lambda>x.
                       (let k = cell (columns l) x c;
                            ms = filter (\<lambda>y. k \<noteq> VNull \<and> cell (columns r) y c = k) (rows r)
                        in if ms = [] then [x @ map (\<lambda>n. VNull) rest]
                           else map (\<lambda>y. x @ map (cell (columns r) y) rest) ms))
                       (rows l))\<rparr>))"

text \<open>
  \<^verbatim>\<open>explode(c)\<close>: one row per element of the list in column \<open>c\<close>. A null and an
  empty list both give one row, with a null in that column; the row is not dropped.
\<close>

fun explode_cell :: "val \<Rightarrow> val list option" where
  "explode_cell VNull = Some [VNull]"
| "explode_cell (VList xs) = Some (if xs = [] then [VNull] else xs)"
| "explode_cell v = None"

definition explode :: "string \<Rightarrow> frame \<Rightarrow> error + frame" where
  "explode c d =
     (if c \<notin> set (columns d) then Inl (ColumnNotFoundError c)
      else bindE
             (traverse (\<lambda>r. case explode_cell (cell (columns d) r c) of
                               None \<Rightarrow> Inl (InvalidOperationError c)
                             | Some vs \<Rightarrow> Inr (map (\<lambda>v. r[index_of (columns d) c := v]) vs))
                (rows d))
             (\<lambda>rss. Inr \<lparr>columns = columns d, rows = concat rss\<rparr>))"

text \<open>
  \<^verbatim>\<open>pl.concat(frames, how=...)\<close> stacks the rows of tables that have the same columns.
  \<^verbatim>\<open>vertical_relaxed\<close> differs from \<^verbatim>\<open>vertical\<close> in that it brings the dtypes of a
  column to a common supertype; both refuse tables whose column names differ.
\<close>

datatype concat_how = Vertical | VerticalRelaxed

fun pl_concat :: "concat_how \<Rightarrow> frame list \<Rightarrow> error + frame" where
  "pl_concat how [] = Inl (ValueError ''cannot concat empty list'')"
| "pl_concat how [d] = Inr d"
| "pl_concat how (d # ds) =
     bindE (pl_concat how ds)
       (\<lambda>t. if columns d = columns t
             then Inr \<lparr>columns = columns d, rows = rows d @ rows t\<rparr>
             else Inl ShapeError)"

text \<open>
  \<^verbatim>\<open>group_by(keys)\<close> makes one group per distinct tuple of key cells; a null is a key like
  any other. The engine does not promise an order of the groups; the model lists them in
  the order \<open>remdups\<close> gives. \<^verbatim>\<open>.agg(f(c))\<close> reduces column \<open>c\<close> of each group with \<open>f\<close>,
  \<^verbatim>\<open>.len(name)\<close> and \<^verbatim>\<open>.count()\<close> give the number of rows of each group.
\<close>

definition key_of :: "string list \<Rightarrow> string list \<Rightarrow> val list \<Rightarrow> val list" where
  "key_of cs keys r = map (cell cs r) keys"

definition group_by_agg ::
    "string list \<Rightarrow> (val list \<Rightarrow> val) \<Rightarrow> string \<Rightarrow> frame \<Rightarrow> error + frame" where
  "group_by_agg keys f c d =
     (case first_missing (columns d) (keys @ [c]) of
        Some e \<Rightarrow> Inl e
      | None \<Rightarrow>
          (case first_duplicate (keys @ [c]) of
             Some n \<Rightarrow> Inl (DuplicateError n)
           | None \<Rightarrow>
               Inr \<lparr>columns = keys @ [c],
                    rows = map (\<lambda>k. k @ [f (map (\<lambda>r. cell (columns d) r c)
                                   (filter (\<lambda>r. key_of (columns d) keys r = k) (rows d)))])
                             (remdups (map (key_of (columns d) keys) (rows d)))\<rparr>))"

definition group_by_len :: "string list \<Rightarrow> string \<Rightarrow> frame \<Rightarrow> error + frame" where
  "group_by_len keys name d =
     (case first_missing (columns d) keys of
        Some e \<Rightarrow> Inl e
      | None \<Rightarrow>
          (case first_duplicate (keys @ [name]) of
             Some n \<Rightarrow> Inl (DuplicateError n)
           | None \<Rightarrow>
               Inr \<lparr>columns = keys @ [name],
                    rows = map (\<lambda>k. k @ [VInt (int (length
                                   (filter (\<lambda>r. key_of (columns d) keys r = k) (rows d))))])
                             (remdups (map (key_of (columns d) keys) (rows d)))\<rparr>))"

definition group_by_count :: "string list \<Rightarrow> frame \<Rightarrow> error + frame" where
  "group_by_count keys d = group_by_len keys ''count'' d"

text \<open>\<^verbatim>\<open>rename(mapping)\<close>: every old name must exist, and the new names must not clash.\<close>

definition rename :: "(string \<times> string) list \<Rightarrow> frame \<Rightarrow> error + frame" where
  "rename m d =
     (case first_missing (columns d) (map fst m) of
        Some e \<Rightarrow> Inl e
      | None \<Rightarrow>
          (let cs' = map (\<lambda>c. case map_of m c of Some n \<Rightarrow> n | None \<Rightarrow> c) (columns d)
           in case first_duplicate cs' of
                Some n \<Rightarrow> Inl (DuplicateError n)
              | None \<Rightarrow> Inr \<lparr>columns = cs', rows = rows d\<rparr>))"

text \<open>
  \<^verbatim>\<open>sort(c)\<close>: ascending and stable, nulls first (the engine's defaults). The cells of a
  column have one dtype; numbers are compared by value, strings byte by byte, and cells
  that are lists or structs are left in the order they had.
\<close>

fun str_le :: "string \<Rightarrow> string \<Rightarrow> bool" where
  "str_le [] t = True"
| "str_le (a # s) [] = False"
| "str_le (a # s) (b # t) =
     ((of_char a :: nat) < of_char b \<or> (a = b \<and> str_le s t))"

fun val_rank :: "val \<Rightarrow> nat" where
  "val_rank VNull = 0"
| "val_rank (VInt i) = 1"
| "val_rank (VFloat q) = 1"
| "val_rank (VStr s) = 2"
| "val_rank (VList xs) = 3"
| "val_rank (VJson fs) = 4"

fun num_of :: "val \<Rightarrow> rat option" where
  "num_of (VInt i) = Some (of_int i)"
| "num_of (VFloat q) = Some q"
| "num_of v = None"

definition val_le :: "val \<Rightarrow> val \<Rightarrow> bool" where
  "val_le a b \<longleftrightarrow>
     val_rank a < val_rank b \<or>
     (val_rank a = val_rank b \<and>
        (case (a, b) of
           (VStr s, VStr t) \<Rightarrow> str_le s t
         | _ \<Rightarrow> (case (num_of a, num_of b) of
                   (Some x, Some y) \<Rightarrow> x \<le> y
                 | _ \<Rightarrow> True)))"

fun insert_row :: "(val list \<Rightarrow> val) \<Rightarrow> val list \<Rightarrow> val list list \<Rightarrow> val list list" where
  "insert_row key r [] = [r]"
| "insert_row key r (x # xs) =
     (if val_le (key r) (key x) then r # x # xs else x # insert_row key r xs)"

definition sort_rows :: "(val list \<Rightarrow> val) \<Rightarrow> val list list \<Rightarrow> val list list" where
  "sort_rows key rs = foldr (insert_row key) rs []"

definition sort_frame :: "string \<Rightarrow> frame \<Rightarrow> error + frame" where
  "sort_frame c d =
     (if c \<notin> set (columns d) then Inl (ColumnNotFoundError c)
      else Inr \<lparr>columns = columns d,
                rows = sort_rows (\<lambda>r. cell (columns d) r c) (rows d)\<rparr>)"

text \<open>
  \<^verbatim>\<open>pivot(index=i, columns=c, values=v)\<close>: one row per distinct cell of column \<open>i\<close>, one
  column per distinct cell (level) of column \<open>c\<close>, named by the level's text; the cell
  is the \<open>v\<close> of the one input row with that index and level, or null where there is none.
  More than one such row is an error, no aggregate function being given. Levels that are
  neither strings, integers nor nulls are outside the model: the text the engine would
  give their columns is not modelled, and \<open>pivot\<close> refuses them.
\<close>

function string_of_nat :: "nat \<Rightarrow> string" where
  "string_of_nat n =
     (if n < 10 then [char_of (48 + n)]
      else string_of_nat (n div 10) @ [char_of (48 + n mod 10)])"
  by pat_completeness auto
termination
  by (relation "measure id") auto

definition string_of_int :: "int \<Rightarrow> string" where
  "string_of_int i = (if i < 0 then CHR ''-'' # string_of_nat (nat (- i)) else string_of_nat (nat i))"

fun level_name :: "val \<Rightarrow> string option" where
  "level_name (VStr s) = Some s"
| "level_name VNull = Some ''null''"
| "level_name (VInt i) = Some (string_of_int i)"
| "level_name v = None"

definition pivot_cell :: "frame \<Rightarrow> string \<Rightarrow> string \<Rightarrow> string \<Rightarrow> val \<Rightarrow> val \<Rightarrow> error + val" where
  "pivot_cell d i c v x l =
     (case map (\<lambda>r. cell (columns d) r v)
             (filter (\<lambda>r. cell (columns d) r i = x \<and> cell (columns d) r c = l) (rows d)) of
        [] \<Rightarrow> Inr VNull
      | [y] \<Rightarrow> Inr y
      | _ \<Rightarrow> Inl (ComputeError v))"

definition pivot :: "string \<Rightarrow> string \<Rightarrow> string \<Rightarrow> frame \<Rightarrow> error + frame" where
  "pivot i c v d =
     (case first_missing (columns d) [i, c, v] of
        Some e \<Rightarrow> Inl e
      | None \<Rightarrow>
          (let levels = remdups (get_column d c) in
           bindE (traverse (\<lambda>l. case level_name l of
                                   None \<Rightarrow> Inl (InvalidOperationError c)
                                 | Some n \<Rightarrow> Inr n) levels)
             (\<lambda>names.
                case first_duplicate (i # names) of
                  Some n \<Rightarrow> Inl (DuplicateError n)
                | None \<Rightarrow>
                    bindE (traverse (\<lambda>x. bindE (traverse (pivot_cell d i c v x) levels)
                                            (\<lambda>vs. Inr (x # vs)))
                             (remdups (get_column d i)))
                      (\<lambda>rs. Inr \<lparr>columns = i # names, rows = rs\<rparr>))))"

text \<open>
  \<^verbatim>\<open>DataFrame.fill_null(0)\<close> puts the number in place of the nulls of every numeric column,
  the index column included; columns of another dtype are left alone.
\<close>

definition numeric_column :: "frame \<Rightarrow> string \<Rightarrow> bool" where
  "numeric_column d c = list_all (\<lambda>v. val_rank v \<le> 1) (get_column d c)"

definition fill_null :: "val \<Rightarrow> frame \<Rightarrow> frame" where
  "fill_null v d =
     \<lparr>columns = columns d,
      rows = map (\<lambda>r. map (\<lambda>c. if cell (columns d) r c = VNull \<and> numeric_column d c
                               then v else cell (columns d) r c) (columns d)) (rows d)\<rparr>"

text \<open>\<^verbatim>\<open>Series.unique()\<close>: the distinct cells, in no promised order.\<close>

definition unique :: "val list \<Rightarrow> val list" where
  "unique vs = remdups vs"

text \<open>\<^verbatim>\<open>pl.col(names)\<close> with a Python list: every item has to be a string.\<close>

fun col_names :: "val list \<Rightarrow> error + string list" where
  "col_names [] = Inr []"
| "col_names (VStr s # vs) = bindE (col_names vs) (\<lambda>ns. Inr (s # ns))"
| "col_names (v # vs) = Inl (TypeError ''invalid input for col'')"

text \<open>\<^verbatim>\<open>select(pl.all().exclude(names))\<close>: the columns not named, in their order; a name
  the table does not have is ignored.\<close>

definition select_all_exclude :: "string list \<Rightarrow> frame \<Rightarrow> error + frame" where
  "select_all_exclude names d =
     select (map Col (filter (\<lambda>c. c \<notin> set names) (columns d))) d"

section \<open>The aggregation functions\<close>

text \<open>
  \<^verbatim>\<open>pl.sum\<close>, \<^verbatim>\<open>pl.mean\<close>, \<^verbatim>\<open>pl.min\<close>, \<^verbatim>\<open>pl.max\<close> and \<^verbatim>\<open>pl.median\<close> on the cells of
  one group. Nulls are skipped; a sum of integers is an integer, mean and median are
  floats; with nothing to reduce the sum is 0 and the others are null.
\<close>

definition is_VInt :: "val \<Rightarrow> bool" where
  "is_VInt v = (case v of VInt i \<Rightarrow> True | _ \<Rightarrow> False)"

definition the_int :: "val \<Rightarrow> int" where
  "the_int v = (case v of VInt i \<Rightarrow> i | _ \<Rightarrow> 0)"

definition nums :: "val list \<Rightarrow> rat list" where
  "nums vs = List.map_filter num_of vs"

definition pl_sum :: "val list \<Rightarrow> val" where
  "pl_sum vs =
     (let xs = filter (\<lambda>v. v \<noteq> VNull) vs
      in if list_all is_VInt xs then VInt (sum_list (map the_int xs))
         else VFloat (sum_list (nums xs)))"

definition pl_mean :: "val list \<Rightarrow> val" where
  "pl_mean vs =
     (let xs = nums vs
      in if xs = [] then VNull else VFloat (sum_list xs / of_nat (length xs)))"

definition pl_min :: "val list \<Rightarrow> val" where
  "pl_min vs =
     (let xs = filter (\<lambda>v. v \<noteq> VNull) vs
      in if nums xs = [] then VNull
         else if list_all is_VInt xs then VInt (foldr min (map the_int xs) (the_int (hd xs)))
         else VFloat (foldr min (nums xs) (hd (nums xs))))"

definition pl_max :: "val list \<Rightarrow> val" where
  "pl_max vs =
     (let xs = filter (\<lambda>v. v \<noteq> VNull) vs
      in if nums xs = [] then VNull
         else if list_all is_VInt xs then VInt (foldr max (map the_int xs) (the_int (hd xs)))
         else VFloat (foldr max (nums xs) (hd (nums xs))))"

definition pl_median :: "val list \<Rightarrow> val" where
  "pl_median vs =
     (let xs = sort (nums vs); n = length xs
      in if n = 0 then VNull
         else if odd n then VFloat (xs ! (n div 2))
         else VFloat ((xs ! (n div 2 - 1) + xs ! (n div 2)) / 2))"

definition fn_dict :: "(string \<times> (val list \<Rightarrow> val)) list" where
  "fn_dict =
     [(''sum'', pl_sum), (''mean'', pl_mean), (''min'', pl_min), (''max'', pl_max),
      (''median'', pl_median)]"

section \<open>The ancestor table\<close>

text \<open>
  Modelled from the spec: \<^verbatim>\<open>LMDATA\<close>, imported from \<^verbatim>\<open>pylifemap.utils\<close>, is not part of
  the module. It is the static ancestor mapping, "keyed by \<^verbatim>\<open>taxid\<close>, column
  \<^verbatim>\<open>pylifemap_ascend\<close> holding the ordered ancestor list per row". It is a parameter
  of every entry point here: the list of the pairs of a taxid and its ancestor list, seen
  as a table of these two columns (the module reads no other column of it).
\<close>

type_synonym lmdata = "(int \<times> int list) list"

definition LMDATA :: "lmdata \<Rightarrow> frame" where
  "LMDATA lm =
     \<lparr>columns = [''taxid'', ''pylifemap_ascend''],
      rows = map (\<lambda>(t, anc). [VInt t, VList (map VInt anc)]) lm\<rparr>"

section \<open>The entry points\<close>

definition aggregate_num ::
    "lmdata \<Rightarrow> pyobj \<Rightarrow> string \<Rightarrow> string \<Rightarrow> string \<Rightarrow> error + frame" where
  "aggregate_num lm d column fn taxid_col =
     bindE (ensure_polars d) (\<lambda>d.
     bindE (ensure_column_exists d column) (\<lambda>_.
     bindE (ensure_column_exists d taxid_col) (\<lambda>_.
     bindE (ensure_int32 d taxid_col) (\<lambda>d.
     if column = ''taxid'' then
       Inl (ValueError
         ''Can't aggregate on the taxid column, please make a copy and rename it before.'')
     else
       (case map_of fn_dict fn of
          None \<Rightarrow>
            Inl (ValueError
              ''fn value must be one of dict_keys(['sum', 'mean', 'min', 'max', 'median']).'')
        | Some agg_fn \<Rightarrow>
            bindE (select [Alias (Col taxid_col) ''taxid'', Col column] d) (\<lambda>d.
            bindE (select [Col ''taxid'', Col ''pylifemap_ascend''] (LMDATA lm)) (\<lambda>anc.
            bindE (join_left d anc ''taxid'') (\<lambda>res.
            bindE (explode ''pylifemap_ascend'' res) (\<lambda>res.
            bindE (with_columns [Alias (Col ''taxid'') ''pylifemap_ascend''] d) (\<lambda>obs.
            bindE (pl_concat Vertical [res, obs]) (\<lambda>res.
            bindE (group_by_agg [''pylifemap_ascend''] agg_fn column res) (\<lambda>res.
            bindE (rename [(''pylifemap_ascend'', ''taxid'')] res) (\<lambda>res.
            sort_frame ''taxid'' res)))))))))))))"

definition aggregate_count :: "lmdata \<Rightarrow> pyobj \<Rightarrow> string \<Rightarrow> string \<Rightarrow> error + frame" where
  "aggregate_count lm d result_col taxid_col =
     bindE (ensure_polars d) (\<lambda>d.
     bindE (ensure_column_exists d taxid_col) (\<lambda>_.
     bindE (ensure_int32 d taxid_col) (\<lambda>d.
     bindE (select [Alias (Col taxid_col) ''taxid''] d) (\<lambda>d.
     bindE (select [Col ''taxid'', Col ''pylifemap_ascend''] (LMDATA lm)) (\<lambda>anc.
     bindE (join_left d anc ''taxid'') (\<lambda>res.
     bindE (explode ''pylifemap_ascend'' res) (\<lambda>res.
     bindE (with_columns [Alias (Col ''taxid'') ''pylifemap_ascend''] d) (\<lambda>obs.
     bindE (pl_concat Vertical [res, obs]) (\<lambda>res.
     bindE (group_by_len [''pylifemap_ascend''] result_col res) (\<lambda>res.
     bindE (rename [(''pylifemap_ascend'', ''taxid'')] res) (\<lambda>res.
     sort_frame ''taxid'' res)))))))))))"

definition preprocess_counts :: "pyobj \<Rightarrow> val list \<Rightarrow> string \<Rightarrow> error + frame" where
  "preprocess_counts d cols result_col =
     bindE (ensure_polars d) (\<lambda>d.
     bindE (col_names cols) (\<lambda>names.
     bindE (with_columns
              [Alias (StructJsonEncode names) result_col,
               Alias (Lit (VStr ''count'')) ''pylifemap_count_type''] d) (\<lambda>d.
     select_all_exclude names d)))"

definition aggregate_cat :: "lmdata \<Rightarrow> pyobj \<Rightarrow> string \<Rightarrow> bool \<Rightarrow> string \<Rightarrow> error + frame" where
  "aggregate_cat lm d column keep_leaves taxid_col =
     bindE (ensure_polars d) (\<lambda>d.
     bindE (ensure_int32 d taxid_col) (\<lambda>d.
     bindE (select [Alias (Col taxid_col) ''taxid'', Col column] d) (\<lambda>d.
     (let levels = unique (get_column d column) in
     bindE (select [Col ''taxid'', Col ''pylifemap_ascend''] (LMDATA lm)) (\<lambda>anc.
     bindE (join_left d anc ''taxid'') (\<lambda>res.
     bindE (explode ''pylifemap_ascend'' res) (\<lambda>res.
     bindE (group_by_count [''pylifemap_ascend'', column] res) (\<lambda>res.
     bindE (rename [(''pylifemap_ascend'', ''taxid'')] res) (\<lambda>res.
     bindE (pivot ''taxid'' column ''count'' res) (\<lambda>res.
     bindE (preprocess_counts (PolarsDataFrame (fill_null (VInt 0) res)) levels column) (\<lambda>res.
     if keep_leaves then
       bindE (select [Col taxid_col, Col column] d) (\<lambda>leaves.
       bindE (with_columns [Alias (Lit (VStr ''leaf'')) ''pylifemap_count_type''] leaves)
         (\<lambda>leaves. pl_concat VerticalRelaxed [res, leaves]))
     else Inr res)))))))))))"

section \<open>Notions used in the statements\<close>

text \<open>
  A cell of the identifier column that the strict cast leaves as it is: a null, or an
  integer that fits in 32 bits.
\<close>

definition int32_cell :: "val \<Rightarrow> bool" where
  "int32_cell v = (case v of VNull \<Rightarrow> True | VInt i \<Rightarrow> int32_range i | _ \<Rightarrow> False)"

text \<open>
  The ancestor table is keyed by taxid when no taxid has two rows; the ancestor list of a
  taxid names every ancestor once.
\<close>

definition wf_lmdata :: "lmdata \<Rightarrow> bool" where
  "wf_lmdata lm \<longleftrightarrow> distinct (map fst lm) \<and> list_all (\<lambda>p. distinct (snd p)) lm"

definition ancestors :: "lmdata \<Rightarrow> int \<Rightarrow> int list" where
  "ancestors lm i = (case map_of lm i of None \<Rightarrow> [] | Some anc \<Rightarrow> anc)"

text \<open>
  What the left join and \<^verbatim>\<open>explode\<close> make of a row whose taxid cell is \<open>t\<close>:
  \<open>matches\<close> are the cells of \<^verbatim>\<open>pylifemap_ascend\<close> the join pairs it with, \<open>expand\<close> the
  cells it has after \<^verbatim>\<open>explode\<close>, one per output row.
\<close>

definition matches :: "lmdata \<Rightarrow> val \<Rightarrow> val list" where
  "matches lm t =
     (let ms = filter (\<lambda>p. t \<noteq> VNull \<and> VInt (fst p) = t) lm
      in if ms = [] then [VNull] else map (\<lambda>p. VList (map VInt (snd p))) ms)"

definition expand :: "lmdata \<Rightarrow> val \<Rightarrow> val list" where
  "expand lm t = concat (map (\<lambda>l. the (explode_cell l)) (matches lm t))"

definition expanded :: "lmdata \<Rightarrow> val list list \<Rightarrow> val list list" where
  "expanded lm rs =
     concat (map (\<lambda>r. map (\<lambda>a. r @ [a]) (expand lm (hd r))) rs) @ map (\<lambda>r. r @ [hd r]) rs"

text \<open>
  The rows of the input that \<^verbatim>\<open>aggregate_num\<close> and \<^verbatim>\<open>aggregate_count\<close> group under the
  key \<open>a\<close>: those that have \<open>a\<close> among their expanded ancestor cells, then those whose own
  taxid is \<open>a\<close>; and the keys of all groups.
\<close>

definition group_rows :: "lmdata \<Rightarrow> frame \<Rightarrow> string \<Rightarrow> val \<Rightarrow> val list list" where
  "group_rows lm d taxid_col a =
     filter (\<lambda>r. a \<in> set (expand lm (cell (columns d) r taxid_col))) (rows d) @
     filter (\<lambda>r. cell (columns d) r taxid_col = a) (rows d)"

definition group_keys :: "lmdata \<Rightarrow> frame \<Rightarrow> string \<Rightarrow> val list" where
  "group_keys lm d taxid_col =
     remdups (concat (map (\<lambda>r. expand lm (cell (columns d) r taxid_col)) (rows d)) @
              map (\<lambda>r. cell (columns d) r taxid_col) (rows d))"

text \<open>The cells a taxid column of a result can hold: a null or an integer.\<close>

definition taxid_cell :: "val \<Rightarrow> bool" where
  "taxid_cell v = (case v of VNull \<Rightarrow> True | VInt i \<Rightarrow> True | _ \<Rightarrow> False)"

text \<open>
  In the words of the specification: a row whose taxid cell is \<open>v\<close> has \<open>t\<close> in its
  ancestor list; it has no ancestors at all (the root, a taxid the table does not know,
  a null).
\<close>

definition has_ancestor :: "lmdata \<Rightarrow> val \<Rightarrow> int \<Rightarrow> bool" where
  "has_ancestor lm v t = (case v of VInt i \<Rightarrow> t \<in> set (ancestors lm i) | _ \<Rightarrow> False)"

definition no_ancestors :: "lmdata \<Rightarrow> val \<Rightarrow> bool" where
  "no_ancestors lm v = (case v of VInt i \<Rightarrow> ancestors lm i = [] | _ \<Rightarrow> True)"

text \<open>
  The input rows that have \<open>t\<close> in their ancestor list, followed by those whose own taxid
  is \<open>t\<close>; and the rows without ancestors, followed by those whose taxid is null.
\<close>

definition subtree_rows :: "lmdata \<Rightarrow> frame \<Rightarrow> string \<Rightarrow> int \<Rightarrow> val list list" where
  "subtree_rows lm d taxid_col t =
     filter (\<lambda>r. has_ancestor lm (cell (columns d) r taxid_col) t) (rows d) @
     filter (\<lambda>r. cell (columns d) r taxid_col = VInt t) (rows d)"

definition orphan_rows :: "lmdata \<Rightarrow> frame \<Rightarrow> string \<Rightarrow> val list list" where
  "orphan_rows lm d taxid_col =
     filter (\<lambda>r. no_ancestors lm (cell (columns d) r taxid_col)) (rows d) @
     filter (\<lambda>r. cell (columns d) r taxid_col = VNull) (rows d)"

text \<open>The rows a result has for the taxid cell \<open>a\<close>.\<close>

definition rows_at :: "frame \<Rightarrow> val \<Rightarrow> val list list" where
  "rows_at res a = filter (\<lambda>r. cell (columns res) r ''taxid'' = a) (rows res)"

text \<open>Ascending order of a taxid column, nulls first.\<close>

definition taxid_le :: "val \<Rightarrow> val \<Rightarrow> bool" where
  "taxid_le a b =
     (case a of
        VNull \<Rightarrow> True
      | VInt i \<Rightarrow> (case b of VInt j \<Rightarrow> i \<le> j | _ \<Rightarrow> False)
      | _ \<Rightarrow> False)"

text \<open>Strings among the cells: the test, and the text of a string cell.\<close>

definition str_of :: "val \<Rightarrow> string" where
  "str_of v = (case v of VStr s \<Rightarrow> s | _ \<Rightarrow> [])"

definition is_VStr :: "val \<Rightarrow> bool" where
  "is_VStr v = (case v of VStr s \<Rightarrow> True | _ \<Rightarrow> False)"

text \<open>
  For \<^verbatim>\<open>aggregate_cat\<close>: the pairs of an ancestor cell and a category that the exploded
  table holds, one per row of it.
\<close>

definition exploded_pairs :: "lmdata \<Rightarrow> frame \<Rightarrow> string \<Rightarrow> string \<Rightarrow> (val \<times> val) list" where
  "exploded_pairs lm d taxid_col column =
     concat (map (\<lambda>r. map (\<lambda>a. (a, cell (columns d) r column))
                          (expand lm (cell (columns d) r taxid_col))) (rows d))"

text \<open>
  The result of \<^verbatim>\<open>aggregate_cat\<close> in terms of its input: the category levels, the keys of
  the aggregated rows (the ancestor cells of the input rows), \<^verbatim>\<open>fill_null(0)\<close> on one
  cell, the number of input rows of a level under a key, the aggregated rows and the leaf
  rows.
\<close>

definition cat_levels :: "frame \<Rightarrow> string \<Rightarrow> val list" where
  "cat_levels d column = remdups (get_column d column)"

definition ancestor_keys :: "lmdata \<Rightarrow> frame \<Rightarrow> string \<Rightarrow> val list" where
  "ancestor_keys lm d taxid_col =
     remdups (concat (map (\<lambda>r. expand lm (cell (columns d) r taxid_col)) (rows d)))"

definition fill0 :: "val \<Rightarrow> val" where
  "fill0 v = (if v = VNull then VInt 0 else v)"

definition cat_count :: "lmdata \<Rightarrow> frame \<Rightarrow> string \<Rightarrow> string \<Rightarrow> val \<Rightarrow> val \<Rightarrow> int" where
  "cat_count lm d taxid_col column x l =
     int (length (filter (\<lambda>r. x \<in> set (expand lm (cell (columns d) r taxid_col)) \<and>
                              cell (columns d) r column = l) (rows d)))"

definition count_rows :: "lmdata \<Rightarrow> frame \<Rightarrow> string \<Rightarrow> string \<Rightarrow> val list list" where
  "count_rows lm d taxid_col column =
     map (\<lambda>x. [fill0 x,
                VJson (map (\<lambda>l. (str_of l, VInt (cat_count lm d taxid_col column x l)))
                         (cat_levels d column)),
                VStr ''count''])
       (ancestor_keys lm d taxid_col)"

definition leaf_rows :: "frame \<Rightarrow> string \<Rightarrow> string \<Rightarrow> val list list" where
  "leaf_rows d taxid_col column =
     map (\<lambda>r. [cell (columns d) r taxid_col, cell (columns d) r column, VStr ''leaf'']) (rows d)"

text \<open>
  The input rows that have \<open>t\<close> in their ancestor list, and the aggregated rows (tagged
  \<^verbatim>\<open>count\<close>) that a result of \<^verbatim>\<open>aggregate_cat\<close> has for the taxid cell \<open>a\<close>.
\<close>

definition descendant_rows :: "lmdata \<Rightarrow> frame \<Rightarrow> string \<Rightarrow> int \<Rightarrow> val list list" where
  "descendant_rows lm d taxid_col t =
     filter (\<lambda>r. has_ancestor lm (cell (columns d) r taxid_col) t) (rows d)"

definition count_rows_at :: "frame \<Rightarrow> val \<Rightarrow> val list list" where
  "count_rows_at res a =
     filter (\<lambda>r. cell (columns res) r ''taxid'' = a \<and>
                 cell (columns res) r ''pylifemap_count_type'' = VStr ''count'') (rows res)"

section \<open>Facts about the building blocks\<close>

lemma bindE_Inr [simp]: "bindE (Inr x) f = f x"
  by (simp add: bindE_def)

lemma bindE_Inl [simp]: "bindE (Inl e) f = Inl e"
  by (simp add: bindE_def)

lemma bindE_eq_Inr: "bindE m f = Inr y \<longleftrightarrow> (\<exists>x. m = Inr x \<and> f x = Inr y)"
  by (cases m) simp_all

lemma traverse_Inr: "(\<And>x. x \<in> set xs \<Longrightarrow> f x = Inr (g x)) \<Longrightarrow> traverse f xs = Inr (map g xs)"
  by (induction xs) simp_all

lemma first_missing_None: "first_missing cs names = None \<longleftrightarrow> set names \<subseteq> set cs"
proof -
  have "first_missing cs names = None \<longleftrightarrow> filter (\<lambda>n. n \<notin> set cs) names = []"
    by (simp add: first_missing_def split: list.splits)
  then show ?thesis by (auto simp: filter_empty_conv)
qed

lemma first_duplicate_None: "first_duplicate ns = None \<longleftrightarrow> distinct ns"
  by (induction ns) auto

lemma index_of_less: "c \<in> set cs \<Longrightarrow> index_of cs c < length cs"
  by (induction cs) auto

lemma nth_index_of: "c \<in> set cs \<Longrightarrow> cs ! index_of cs c = c"
  by (induction cs) auto

lemma index_of_nth: "distinct cs \<Longrightarrow> i < length cs \<Longrightarrow> index_of cs (cs ! i) = i"
proof (induction cs arbitrary: i)
  case Nil
  then show ?case by simp
next
  case (Cons a cs)
  then show ?case by (cases i) auto
qed

lemma index_of_append: "c \<notin> set cs \<Longrightarrow> index_of (cs @ [c]) c = length cs"
  by (induction cs) auto

lemma index_of_append_left: "c \<in> set cs \<Longrightarrow> index_of (cs @ ds) c = index_of cs c"
  by (induction cs) auto

lemma map_cell_id:
  assumes "distinct cs" "length r = length cs"
  shows "map (cell cs r) cs = r"
proof (rule nth_equalityI)
  show "length (map (cell cs r) cs) = length r" using assms by simp
next
  fix i assume "i < length (map (cell cs r) cs)"
  then show "map (cell cs r) cs ! i = r ! i"
    using assms by (simp add: cell_def index_of_nth)
qed

lemma cell_append_last:
  "c \<notin> set cs \<Longrightarrow> length r = length cs \<Longrightarrow> cell (cs @ [c]) (r @ [a]) c = a"
  by (simp add: cell_def index_of_append nth_append)

lemma select_LMDATA:
  "select [Col ''taxid'', Col ''pylifemap_ascend''] (LMDATA lm) = Inr (LMDATA lm)"
proof -
  have "traverse (\<lambda>r. traverse (eval_row [''taxid'', ''pylifemap_ascend''] r)
            [Col ''taxid'', Col ''pylifemap_ascend''])
          (map (\<lambda>(t, anc). [VInt t, VList (map VInt anc)]) lm)
        = Inr (map (\<lambda>r. r) (map (\<lambda>(t, anc). [VInt t, VList (map VInt anc)]) lm))"
    by (rule traverse_Inr) (auto simp: cell_def)
  then show ?thesis
    by (simp add: select_def LMDATA_def first_missing_def)
qed

lemma join_LMDATA:
  assumes cs: "cs = ''taxid'' # rest" "''pylifemap_ascend'' \<notin> set cs" "distinct cs"
    and len: "\<forall>r \<in> set rs. length r = length cs"
  shows "join_left \<lparr>columns = cs, rows = rs\<rparr> (LMDATA lm) ''taxid'' =
           Inr \<lparr>columns = cs @ [''pylifemap_ascend''],
                rows = concat (map (\<lambda>r. map (\<lambda>l. r @ [l]) (matches lm (hd r))) rs)\<rparr>"
proof -
  have dup: "first_duplicate (cs @ [''pylifemap_ascend'']) = None"
    using cs by (simp add: first_duplicate_None)
  have k: "cell cs r ''taxid'' = hd r" if "r \<in> set rs" for r
  proof -
    from that len cs have "r \<noteq> []" by auto
    then show ?thesis using cs by (simp add: cell_def hd_conv_nth)
  qed
  have cell2: "cell [''taxid'', ''pylifemap_ascend''] [a, b] ''taxid'' = a"
    "cell [''taxid'', ''pylifemap_ascend''] [a, b] ''pylifemap_ascend'' = b" for a b
    by (simp_all add: cell_def)
  have "join_left \<lparr>columns = cs, rows = rs\<rparr> (LMDATA lm) ''taxid'' =
          Inr \<lparr>columns = cs @ [''pylifemap_ascend''],
               rows = concat (map (\<lambda>x.
                 if filter (\<lambda>p. cell cs x ''taxid'' \<noteq> VNull \<and> VInt (fst p) = cell cs x ''taxid'') lm = []
                 then [x @ [VNull]]
                 else map (\<lambda>p. x @ [VList (map VInt (snd p))])
                        (filter (\<lambda>p. cell cs x ''taxid'' \<noteq> VNull \<and> VInt (fst p) = cell cs x ''taxid'') lm)) rs)\<rparr>"
    using cs dup
    by (simp add: join_left_def LMDATA_def Let_def filter_map o_def case_prod_beta cell2
          cong: if_cong)
  also have "concat (map (\<lambda>x.
                 if filter (\<lambda>p. cell cs x ''taxid'' \<noteq> VNull \<and> VInt (fst p) = cell cs x ''taxid'') lm = []
                 then [x @ [VNull]]
                 else map (\<lambda>p. x @ [VList (map VInt (snd p))])
                        (filter (\<lambda>p. cell cs x ''taxid'' \<noteq> VNull \<and> VInt (fst p) = cell cs x ''taxid'') lm)) rs)
      = concat (map (\<lambda>r. map (\<lambda>l. r @ [l]) (matches lm (hd r))) rs)"
    by (rule arg_cong [where f = concat], rule map_cong [OF refl])
       (simp add: k matches_def Let_def o_def)
  finally show ?thesis .
qed


lemma matches_cases: "l \<in> set (matches lm t) \<Longrightarrow> l = VNull \<or> (\<exists>xs. l = VList xs)"
  by (auto simp: matches_def Let_def split: if_splits)

lemma explode_joined:
  assumes pa: "''pylifemap_ascend'' \<notin> set cs"
    and len: "\<forall>r \<in> set rs. length r = length cs"
  shows "explode ''pylifemap_ascend''
           \<lparr>columns = cs @ [''pylifemap_ascend''],
            rows = concat (map (\<lambda>r. map (\<lambda>l. r @ [l]) (matches lm (hd r))) rs)\<rparr> =
         Inr \<lparr>columns = cs @ [''pylifemap_ascend''],
              rows = concat (map (\<lambda>r. map (\<lambda>a. r @ [a]) (expand lm (hd r))) rs)\<rparr>"
proof -
  let ?J = "concat (map (\<lambda>r. map (\<lambda>l. r @ [l]) (matches lm (hd r))) rs)"
  let ?g = "\<lambda>x. map (\<lambda>v. butlast x @ [v]) (the (explode_cell (last x)))"
  have "traverse (\<lambda>r. case explode_cell (cell (cs @ [''pylifemap_ascend'']) r ''pylifemap_ascend'') of
                        None \<Rightarrow> Inl (InvalidOperationError ''pylifemap_ascend'')
                      | Some vs \<Rightarrow> Inr (map (\<lambda>v. r[index_of (cs @ [''pylifemap_ascend'']) ''pylifemap_ascend'' := v]) vs))
          ?J = Inr (map ?g ?J)"
  proof (rule traverse_Inr)
    fix x assume "x \<in> set ?J"
    then obtain r l where r: "r \<in> set rs" and l: "l \<in> set (matches lm (hd r))" and x: "x = r @ [l]"
      by auto
    from r len have lr: "length r = length cs" by simp
    from matches_cases [OF l] obtain vs where vs: "explode_cell l = Some vs"
      by auto
    show "(case explode_cell (cell (cs @ [''pylifemap_ascend'']) x ''pylifemap_ascend'') of
             None \<Rightarrow> Inl (InvalidOperationError ''pylifemap_ascend'')
           | Some vs \<Rightarrow> Inr (map (\<lambda>v. x[index_of (cs @ [''pylifemap_ascend'']) ''pylifemap_ascend'' := v]) vs))
          = Inr (?g x)"
      using pa lr vs by (simp add: x cell_append_last index_of_append lr [symmetric])
  qed
  moreover have "concat (map ?g ?J) = concat (map (\<lambda>r. map (\<lambda>a. r @ [a]) (expand lm (hd r))) rs)"
    by (induction rs) (simp_all add: o_def expand_def map_concat)
  ultimately show ?thesis
    using pa by (simp add: explode_def cong: option.case_cong)
qed



lemma cast_Int32_id: "int32_cell v \<Longrightarrow> cast_Int32 n v = Inr v"
  by (cases v) (simp_all add: int32_cell_def checked_int32_def)

lemma with_columns_self:
  assumes cs: "cs = ''taxid'' # rest" "''pylifemap_ascend'' \<notin> set cs" "distinct cs"
    and len: "\<forall>r \<in> set rs. length r = length cs"
  shows "with_columns [Alias (Col ''taxid'') ''pylifemap_ascend''] \<lparr>columns = cs, rows = rs\<rparr> =
           Inr \<lparr>columns = cs @ [''pylifemap_ascend''], rows = map (\<lambda>r. r @ [hd r]) rs\<rparr>"
proof -
  have "traverse
          (\<lambda>r. bindE (traverse (eval_row cs r) [Alias (Col ''taxid'') ''pylifemap_ascend''])
             (\<lambda>vs. Inr (map (\<lambda>c. case map_of (zip [''pylifemap_ascend''] vs) c of
                                    Some v \<Rightarrow> v
                                  | None \<Rightarrow> cell cs r c) (cs @ [''pylifemap_ascend'']))))
          rs = Inr (map (\<lambda>r. r @ [hd r]) rs)"
  proof (rule traverse_Inr)
    fix r assume r: "r \<in> set rs"
    with len cs have ne: "r \<noteq> []" and lr: "length r = length cs" by auto
    have k: "cell cs r ''taxid'' = hd r"
      using ne cs by (simp add: cell_def hd_conv_nth)
    have "map (\<lambda>c. case map_of [(''pylifemap_ascend'', hd r)] c of
                     Some v \<Rightarrow> v | None \<Rightarrow> cell cs r c) cs = map (cell cs r) cs"
      using cs(2) by (intro map_cong refl) auto
    then show "bindE (traverse (eval_row cs r) [Alias (Col ''taxid'') ''pylifemap_ascend''])
             (\<lambda>vs. Inr (map (\<lambda>c. case map_of (zip [''pylifemap_ascend''] vs) c of
                                    Some v \<Rightarrow> v
                                  | None \<Rightarrow> cell cs r c) (cs @ [''pylifemap_ascend'']))) =
          Inr (r @ [hd r])"
      using cs(3) lr by (simp add: k map_cell_id)
  qed
  moreover have "''taxid'' \<in> set cs" using cs(1) by simp
  ultimately show ?thesis
    using cs(2) by (simp add: with_columns_def first_missing_def Let_def cong: option.case_cong)
qed

lemma ensure_int32_id:
  assumes wf: "wf_frame d" and c: "c \<in> set (columns d)"
    and ok: "\<forall>v \<in> set (get_column d c). int32_cell v"
  shows "ensure_int32 d c = Inr d"
proof -
  let ?cs = "columns d"
  have "traverse
          (\<lambda>r. bindE (traverse (eval_row ?cs r) [CastInt32 (Col c)])
             (\<lambda>vs. Inr (map (\<lambda>c'. case map_of (zip [c] vs) c' of
                                    Some v \<Rightarrow> v
                                  | None \<Rightarrow> cell ?cs r c') ?cs)))
          (rows d) = Inr (map (\<lambda>r. r) (rows d))"
  proof (rule traverse_Inr)
    fix r assume r: "r \<in> set (rows d)"
    with wf have lr: "length r = length ?cs" and dist: "distinct ?cs"
      by (auto simp: wf_frame_def)
    from r ok have "int32_cell (cell ?cs r c)" by (auto simp: get_column_def)
    then have cast: "cast_Int32 c (cell ?cs r c) = Inr (cell ?cs r c)"
      by (rule cast_Int32_id)
    have "map (\<lambda>c'. case map_of [(c, cell ?cs r c)] c' of
                     Some v \<Rightarrow> v | None \<Rightarrow> cell ?cs r c') ?cs = map (cell ?cs r) ?cs"
      by (intro map_cong refl) auto
    then show "bindE (traverse (eval_row ?cs r) [CastInt32 (Col c)])
             (\<lambda>vs. Inr (map (\<lambda>c'. case map_of (zip [c] vs) c' of
                                    Some v \<Rightarrow> v
                                  | None \<Rightarrow> cell ?cs r c') ?cs)) = Inr r"
      using lr dist by (simp add: cast map_cell_id)
  qed
  then show ?thesis
    using c by (simp add: ensure_int32_def with_columns_def first_missing_def Let_def
        cong: option.case_cong)
qed

lemma select_pair:
  assumes "t \<in> set (columns d)" "c \<in> set (columns d)" "c \<noteq> ''taxid''"
  shows "select [Alias (Col t) ''taxid'', Col c] d =
           Inr \<lparr>columns = [''taxid'', c],
                rows = map (\<lambda>r. [cell (columns d) r t, cell (columns d) r c]) (rows d)\<rparr>"
proof -
  have "traverse (\<lambda>r. traverse (eval_row (columns d) r) [Alias (Col t) ''taxid'', Col c]) (rows d)
        = Inr (map (\<lambda>r. [cell (columns d) r t, cell (columns d) r c]) (rows d))"
    by (rule traverse_Inr) simp
  then show ?thesis
    using assms by (auto simp add: select_def first_missing_def)
qed

lemma select_single:
  assumes "t \<in> set (columns d)"
  shows "select [Alias (Col t) ''taxid''] d =
           Inr \<lparr>columns = [''taxid''], rows = map (\<lambda>r. [cell (columns d) r t]) (rows d)\<rparr>"
proof -
  have "traverse (\<lambda>r. traverse (eval_row (columns d) r) [Alias (Col t) ''taxid'']) (rows d)
        = Inr (map (\<lambda>r. [cell (columns d) r t]) (rows d))"
    by (rule traverse_Inr) simp
  then show ?thesis
    using assms by (auto simp add: select_def first_missing_def)
qed




lemma remdups_map_single: "remdups (map (\<lambda>x. [g x]) xs) = map (\<lambda>a. [a]) (remdups (map g xs))"
  by (induction xs) auto

lemma key_of_single: "key_of cs [k] = (\<lambda>r. [cell cs r k])"
  by (rule ext) (simp add: key_of_def)

lemma group_by_agg_single:
  assumes "k \<in> set cs" "c \<in> set cs" "k \<noteq> c"
  shows "group_by_agg [k] f c \<lparr>columns = cs, rows = E\<rparr> =
           Inr \<lparr>columns = [k, c],
                rows = map (\<lambda>a. [a, f (map (\<lambda>r. cell cs r c) (filter (\<lambda>r. cell cs r k = a) E))])
                         (remdups (map (\<lambda>r. cell cs r k) E))\<rparr>"
  using assms
  by (simp add: group_by_agg_def first_missing_def key_of_single remdups_map_single o_def)

lemma group_by_len_single:
  assumes "k \<in> set cs" "k \<noteq> n"
  shows "group_by_len [k] n \<lparr>columns = cs, rows = E\<rparr> =
           Inr \<lparr>columns = [k, n],
                rows = map (\<lambda>a. [a, VInt (int (length (filter (\<lambda>r. cell cs r k = a) E)))])
                         (remdups (map (\<lambda>r. cell cs r k) E))\<rparr>"
  using assms
  by (simp add: group_by_len_def first_missing_def key_of_single remdups_map_single o_def)

lemma rename_ascend:
  assumes "c \<noteq> ''taxid''" "c \<noteq> ''pylifemap_ascend''"
  shows "rename [(''pylifemap_ascend'', ''taxid'')] \<lparr>columns = [''pylifemap_ascend'', c], rows = R\<rparr> =
           Inr \<lparr>columns = [''taxid'', c], rows = R\<rparr>"
  using assms by (simp add: rename_def first_missing_def)

lemma sort_frame_taxid:
  "sort_frame ''taxid'' \<lparr>columns = [''taxid'', c], rows = R\<rparr> =
     Inr \<lparr>columns = [''taxid'', c], rows = sort_rows (\<lambda>r. cell [''taxid'', c] r ''taxid'') R\<rparr>"
  by (simp add: sort_frame_def)

lemma expanded_pipeline:
  assumes cs: "cs = ''taxid'' # rest" "''pylifemap_ascend'' \<notin> set cs" "distinct cs"
    and len: "\<forall>r \<in> set rs. length r = length cs"
  shows "bindE (select [Col ''taxid'', Col ''pylifemap_ascend''] (LMDATA lm)) (\<lambda>anc.
         bindE (join_left \<lparr>columns = cs, rows = rs\<rparr> anc ''taxid'') (\<lambda>res.
         bindE (explode ''pylifemap_ascend'' res) (\<lambda>res.
         bindE (with_columns [Alias (Col ''taxid'') ''pylifemap_ascend''] \<lparr>columns = cs, rows = rs\<rparr>) (\<lambda>obs.
         bindE (pl_concat Vertical [res, obs]) k))))
         = k \<lparr>columns = cs @ [''pylifemap_ascend''], rows = expanded lm rs\<rparr>"
  by (simp add: select_LMDATA join_LMDATA [OF cs len] explode_joined [OF cs(2) len]
        with_columns_self [OF cs len] expanded_def)

lemma filter_eq_distinct: "distinct xs \<Longrightarrow> filter (\<lambda>x. x = a) xs = (if a \<in> set xs then [a] else [])"
  by (induction xs) auto

lemma expanded_keys:
  assumes pa: "pa \<notin> set cs" and len: "\<forall>r \<in> set rs. length r = length cs"
  shows "map (\<lambda>r. cell (cs @ [pa]) r pa) (expanded lm rs) =
           concat (map (\<lambda>r. expand lm (hd r)) rs) @ map hd rs"
  using len
  by (induction rs) (simp_all add: expanded_def cell_append_last [OF pa] o_def)

lemma expanded_filter:
  assumes pa: "pa \<notin> set cs" and len: "\<forall>r \<in> set rs. length r = length cs"
    and dist: "\<forall>r \<in> set rs. distinct (expand lm (hd r))"
  shows "filter (\<lambda>r. cell (cs @ [pa]) r pa = a) (expanded lm rs) =
           map (\<lambda>r. r @ [a]) (filter (\<lambda>r. a \<in> set (expand lm (hd r))) rs @ filter (\<lambda>r. hd r = a) rs)"
proof -
  have 1: "filter (\<lambda>r. cell (cs @ [pa]) r pa = a)
             (concat (map (\<lambda>r. map (\<lambda>a. r @ [a]) (expand lm (hd r))) rs)) =
           map (\<lambda>r. r @ [a]) (filter (\<lambda>r. a \<in> set (expand lm (hd r))) rs)"
    using len dist
    by (induction rs)
       (simp_all add: filter_map o_def cell_append_last [OF pa] filter_eq_distinct)
  have 2: "filter (\<lambda>r. cell (cs @ [pa]) r pa = a) (map (\<lambda>r. r @ [hd r]) rs) =
           map (\<lambda>r. r @ [a]) (filter (\<lambda>r. hd r = a) rs)"
    using len
    by (induction rs) (simp_all add: cell_append_last [OF pa])
  show ?thesis by (simp add: expanded_def 1 2)
qed


lemma filter_key_distinct:
  "distinct (map fst lm) \<Longrightarrow>
     filter (\<lambda>p. fst p = i) lm = (case map_of lm i of None \<Rightarrow> [] | Some anc \<Rightarrow> [(i, anc)])"
proof (induction lm)
  case Nil
  then show ?case by simp
next
  case (Cons p lm)
  show ?case
  proof (cases "fst p = i")
    case True
    with Cons.prems have "i \<notin> fst ` set lm" by auto
    then have "filter (\<lambda>p. fst p = i) lm = []"
      by (auto simp: filter_empty_conv)
    with True show ?thesis by (cases p) simp
  next
    case False
    with Cons show ?thesis by (cases p) simp
  qed
qed

lemma expand_VInt:
  assumes "distinct (map fst lm)"
  shows "expand lm (VInt i) =
           (if ancestors lm i = [] then [VNull] else map VInt (ancestors lm i))"
  by (simp add: expand_def matches_def filter_key_distinct [OF assms] ancestors_def
           split: option.splits)

lemma expand_non_int: "(\<And>i. x \<noteq> VInt i) \<Longrightarrow> expand lm x = [VNull]"
  by (auto simp: expand_def matches_def Let_def filter_empty_conv)

lemma expand_distinct:
  assumes "wf_lmdata lm"
  shows "distinct (expand lm x)"
proof (cases "\<exists>i. x = VInt i")
  case True
  then obtain i where x: "x = VInt i" by blast
  have "distinct (ancestors lm i)"
    using assms
    by (auto simp: ancestors_def wf_lmdata_def list_all_iff split: option.splits dest!: map_of_SomeD)
  then show ?thesis
    using assms by (simp add: x expand_VInt wf_lmdata_def distinct_map inj_on_def)
next
  case False
  then show ?thesis by (simp add: expand_non_int)
qed



lemma aggregate_num_eq:
  assumes obj: "ensure_polars obj = Inr d" and wf: "wf_frame d" and t: "t \<in> set (columns d)" and c: "c \<in> set (columns d)"
    and ct: "c \<noteq> ''taxid''" and cp: "c \<noteq> ''pylifemap_ascend''"
    and ok: "\<forall>v \<in> set (get_column d t). int32_cell v"
    and fn: "map_of fn_dict fn = Some f"
    and lm: "wf_lmdata lm"
  shows "aggregate_num lm obj c fn t =
           Inr \<lparr>columns = [''taxid'', c],
                rows = sort_rows (\<lambda>r. cell [''taxid'', c] r ''taxid'')
                  (map (\<lambda>a. [a, f (map (\<lambda>r. cell (columns d) r c) (group_rows lm d t a))])
                     (group_keys lm d t))\<rparr>"
proof -
  let ?cs = "[''taxid'', c]"
  let ?rs = "map (\<lambda>r. [cell (columns d) r t, cell (columns d) r c]) (rows d)"
  let ?E = "expanded lm ?rs"
  have cs: "?cs = ''taxid'' # [c]" "''pylifemap_ascend'' \<notin> set ?cs" "distinct ?cs"
    using ct cp by auto
  have len: "\<forall>r \<in> set ?rs. length r = length ?cs" by simp
  have dist: "\<forall>r \<in> set ?rs. distinct (expand lm (hd r))"
    using lm by (simp add: expand_distinct)
  let ?cs3 = "[''taxid'', c, ''pylifemap_ascend'']"
  have keys: "map (\<lambda>r. cell ?cs3 r ''pylifemap_ascend'') ?E =
      concat (map (\<lambda>r. expand lm (cell (columns d) r t)) (rows d)) @
      map (\<lambda>r. cell (columns d) r t) (rows d)"
    using expanded_keys [OF cs(2) len, of lm] by (simp add: o_def)
  have vals: "map (\<lambda>r. cell ?cs3 r c) (filter (\<lambda>r. cell ?cs3 r ''pylifemap_ascend'' = a) ?E) =
      map (\<lambda>r. cell (columns d) r c) (group_rows lm d t a)" for a
  proof -
    have "filter (\<lambda>r. cell ?cs3 r ''pylifemap_ascend'' = a) ?E =
            map (\<lambda>r. r @ [a]) (filter (\<lambda>r. a \<in> set (expand lm (hd r))) ?rs @
                                filter (\<lambda>r. hd r = a) ?rs)"
      using expanded_filter [OF cs(2) len dist, of a] by simp
    then show ?thesis
      using ct by (simp add: group_rows_def filter_map o_def cell_def)
  qed
  have "aggregate_num lm obj c fn t =
          bindE (group_by_agg [''pylifemap_ascend''] f c
                   \<lparr>columns = ?cs3, rows = ?E\<rparr>) (\<lambda>res.
          bindE (rename [(''pylifemap_ascend'', ''taxid'')] res) (\<lambda>res.
          sort_frame ''taxid'' res))"
    using t c ct fn
    by (simp add: aggregate_num_def obj ensure_column_exists_def
          ensure_int32_id [OF wf t ok] select_pair expanded_pipeline [OF cs len]
          del: pl_concat.simps)
  also have "\<dots> = Inr \<lparr>columns = [''taxid'', c],
                rows = sort_rows (\<lambda>r. cell [''taxid'', c] r ''taxid'')
                  (map (\<lambda>a. [a, f (map (\<lambda>r. cell (columns d) r c) (group_rows lm d t a))])
                     (group_keys lm d t))\<rparr>"
    using ct cp
    by (simp add: group_by_agg_single rename_ascend sort_frame_taxid keys vals group_keys_def)
  finally show ?thesis .
qed

lemma traverse_Inl:
  assumes "\<And>x. x \<in> set xs \<Longrightarrow> f x = Inl e \<or> (\<exists>y. f x = Inr y)"
    and "\<exists>x \<in> set xs. f x = Inl e"
  shows "traverse f xs = Inl e"
  using assms
proof (induction xs)
  case Nil
  then show ?case by simp
next
  case (Cons x xs)
  show ?case
  proof (cases "f x")
    case (Inl e')
    with Cons.prems(1) [of x] show ?thesis by simp
  next
    case (Inr y)
    with Cons.prems have "\<exists>x \<in> set xs. f x = Inl e" by auto
    with Cons have "traverse f xs = Inl e" by simp
    with Inr show ?thesis by simp
  qed
qed

lemma ensure_int32_raises:
  assumes c: "c \<in> set (columns d)"
    and ints: "\<forall>v \<in> set (get_column d c). v = VNull \<or> (\<exists>i. v = VInt i)"
    and bad: "\<exists>v \<in> set (get_column d c). \<not> int32_cell v"
  shows "ensure_int32 d c = Inl (InvalidOperationError c)"
proof -
  let ?cs = "columns d"
  let ?f = "\<lambda>r. bindE (traverse (eval_row ?cs r) [CastInt32 (Col c)])
             (\<lambda>vs. Inr (map (\<lambda>c'. case map_of (zip [c] vs) c' of
                                    Some v \<Rightarrow> v
                                  | None \<Rightarrow> cell ?cs r c') ?cs))"
  have eval: "traverse (eval_row ?cs r) [CastInt32 (Col c)] =
      (if int32_cell (cell ?cs r c) then Inr [cell ?cs r c] else Inl (InvalidOperationError c))"
    if "r \<in> set (rows d)" for r
  proof -
    from that ints have "cell ?cs r c = VNull \<or> (\<exists>i. cell ?cs r c = VInt i)"
      by (auto simp: get_column_def)
    then show ?thesis
      by (auto simp: int32_cell_def checked_int32_def)
  qed
  have "traverse ?f (rows d) = Inl (InvalidOperationError c)"
  proof (rule traverse_Inl)
    fix r assume r: "r \<in> set (rows d)"
    show "?f r = Inl (InvalidOperationError c) \<or> (\<exists>y. ?f r = Inr y)"
      unfolding eval [OF r] by simp
  next
    from bad obtain r where r: "r \<in> set (rows d)" and n: "\<not> int32_cell (cell ?cs r c)"
      by (auto simp: get_column_def)
    have "?f r = Inl (InvalidOperationError c)"
      unfolding eval [OF r] using n by simp
    with r show "\<exists>r \<in> set (rows d). ?f r = Inl (InvalidOperationError c)"
      by blast
  qed
  then show ?thesis
    using c by (simp add: ensure_int32_def with_columns_def first_missing_def Let_def
        cong: option.case_cong)
qed

lemma aggregate_count_eq:
  assumes obj: "ensure_polars obj = Inr d" and wf: "wf_frame d" and t: "t \<in> set (columns d)"
    and nt: "n \<noteq> ''taxid''" and np: "n \<noteq> ''pylifemap_ascend''"
    and ok: "\<forall>v \<in> set (get_column d t). int32_cell v"
    and lm: "wf_lmdata lm"
  shows "aggregate_count lm obj n t =
           Inr \<lparr>columns = [''taxid'', n],
                rows = sort_rows (\<lambda>r. cell [''taxid'', n] r ''taxid'')
                  (map (\<lambda>a. [a, VInt (int (length (group_rows lm d t a)))])
                     (group_keys lm d t))\<rparr>"
proof -
  let ?cs = "[''taxid'']"
  let ?rs = "map (\<lambda>r. [cell (columns d) r t]) (rows d)"
  let ?E = "expanded lm ?rs"
  let ?cs2 = "[''taxid'', ''pylifemap_ascend'']"
  have cs: "?cs = ''taxid'' # []" "''pylifemap_ascend'' \<notin> set ?cs" "distinct ?cs"
    by auto
  have len: "\<forall>r \<in> set ?rs. length r = length ?cs" by simp
  have dist: "\<forall>r \<in> set ?rs. distinct (expand lm (hd r))"
    using lm by (simp add: expand_distinct)
  have keys: "map (\<lambda>r. cell ?cs2 r ''pylifemap_ascend'') ?E =
      concat (map (\<lambda>r. expand lm (cell (columns d) r t)) (rows d)) @
      map (\<lambda>r. cell (columns d) r t) (rows d)"
    using expanded_keys [OF cs(2) len, of lm] by (simp add: o_def)
  have vals: "length (filter (\<lambda>r. cell ?cs2 r ''pylifemap_ascend'' = a) ?E) =
      length (group_rows lm d t a)" for a
  proof -
    have "filter (\<lambda>r. cell ?cs2 r ''pylifemap_ascend'' = a) ?E =
            map (\<lambda>r. r @ [a]) (filter (\<lambda>r. a \<in> set (expand lm (hd r))) ?rs @
                                filter (\<lambda>r. hd r = a) ?rs)"
      using expanded_filter [OF cs(2) len dist, of a] by simp
    then show ?thesis
      by (simp add: group_rows_def filter_map o_def)
  qed
  have "aggregate_count lm obj n t =
          bindE (group_by_len [''pylifemap_ascend''] n
                   \<lparr>columns = ?cs2, rows = ?E\<rparr>) (\<lambda>res.
          bindE (rename [(''pylifemap_ascend'', ''taxid'')] res) (\<lambda>res.
          sort_frame ''taxid'' res))"
    using t
    by (simp add: aggregate_count_def obj ensure_column_exists_def
          ensure_int32_id [OF wf t ok] select_single expanded_pipeline [OF cs len]
          del: pl_concat.simps)
  also have "\<dots> = Inr \<lparr>columns = [''taxid'', n],
                rows = sort_rows (\<lambda>r. cell [''taxid'', n] r ''taxid'')
                  (map (\<lambda>a. [a, VInt (int (length (group_rows lm d t a)))])
                     (group_keys lm d t))\<rparr>"
    using nt np
    by (simp add: group_by_len_single rename_ascend sort_frame_taxid keys vals group_keys_def)
  finally show ?thesis .
qed


lemma set_insert_row: "set (insert_row key r xs) = insert r (set xs)"
  by (induction xs) auto

lemma set_sort_rows: "set (sort_rows key rs) = set rs"
  by (induction rs) (simp_all add: sort_rows_def set_insert_row)

lemma distinct_keys_insert_row:
  "distinct (map key (insert_row key r xs)) \<longleftrightarrow> key r \<notin> key ` set xs \<and> distinct (map key xs)"
  by (induction xs) (auto simp: set_insert_row)

lemma distinct_keys_sort_rows:
  "distinct (map key rs) \<Longrightarrow> distinct (map key (sort_rows key rs))"
  by (induction rs) (simp_all add: sort_rows_def distinct_keys_insert_row set_sort_rows [unfolded sort_rows_def])

lemma filter_key_unique:
  "distinct (map key xs) \<Longrightarrow> x \<in> set xs \<Longrightarrow> filter (\<lambda>r. key r = key x) xs = [x]"
proof (induction xs)
  case Nil
  then show ?case by simp
next
  case (Cons y ys)
  show ?case
  proof (cases "y = x")
    case True
    with Cons.prems have "key x \<notin> key ` set ys" by simp
    then have "filter (\<lambda>r. key r = key x) ys = []"
      by (auto simp: filter_empty_conv image_iff)
    with True show ?thesis by simp
  next
    case False
    with Cons.prems have "x \<in> set ys" "key y \<noteq> key x" by auto
    with Cons show ?thesis by simp
  qed
qed

lemma sorted_insert_row:
  assumes tot: "\<And>a b. a \<in> A \<Longrightarrow> b \<in> A \<Longrightarrow> \<not> val_le a b \<Longrightarrow> val_le b a"
    and trans: "\<And>a b c. a \<in> A \<Longrightarrow> b \<in> A \<Longrightarrow> c \<in> A \<Longrightarrow> val_le a b \<Longrightarrow> val_le b c \<Longrightarrow> val_le a c"
    and "key r \<in> A" "key ` set xs \<subseteq> A" "sorted_wrt val_le (map key xs)"
  shows "sorted_wrt val_le (map key (insert_row key r xs))"
  using assms(3-)
proof (induction xs)
  case Nil
  then show ?case by simp
next
  case (Cons x xs)
  show ?case
  proof (cases "val_le (key r) (key x)")
    case True
    have "\<forall>y \<in> set xs. val_le (key r) (key y)"
    proof
      fix y assume y: "y \<in> set xs"
      with Cons.prems have "val_le (key x) (key y)" by auto
      with True show "val_le (key r) (key y)"
        using trans [of "key r" "key x" "key y"] Cons.prems y by auto
    qed
    with True Cons.prems show ?thesis by simp
  next
    case False
    then have "val_le (key x) (key r)"
      using tot [of "key r" "key x"] Cons.prems by auto
    with False Cons show ?thesis by (auto simp: set_insert_row)
  qed
qed

lemma sorted_sort_rows:
  assumes tot: "\<And>a b. a \<in> A \<Longrightarrow> b \<in> A \<Longrightarrow> \<not> val_le a b \<Longrightarrow> val_le b a"
    and trans: "\<And>a b c. a \<in> A \<Longrightarrow> b \<in> A \<Longrightarrow> c \<in> A \<Longrightarrow> val_le a b \<Longrightarrow> val_le b c \<Longrightarrow> val_le a c"
    and "key ` set rs \<subseteq> A"
  shows "sorted_wrt val_le (map key (sort_rows key rs))"
  using assms(3)
proof (induction rs)
  case Nil
  then show ?case by (simp add: sort_rows_def)
next
  case (Cons r rs)
  then have "sorted_wrt val_le (map key (sort_rows key rs))" by simp
  moreover have "key ` set (sort_rows key rs) \<subseteq> A"
    using Cons.prems by (simp add: set_sort_rows)
  ultimately have "sorted_wrt val_le (map key (insert_row key r (sort_rows key rs)))"
    using Cons.prems by (intro sorted_insert_row [OF tot trans]) auto
  then show ?case by (simp add: sort_rows_def)
qed

lemma taxid_cell_cases: "taxid_cell a \<Longrightarrow> a = VNull \<or> (\<exists>i. a = VInt i)"
  by (cases a) (simp_all add: taxid_cell_def)

lemma val_le_total: "taxid_cell a \<Longrightarrow> taxid_cell b \<Longrightarrow> \<not> val_le a b \<Longrightarrow> val_le b a"
  by (cases a; cases b) (simp_all add: val_le_def taxid_cell_def)

lemma val_le_trans:
  "taxid_cell a \<Longrightarrow> taxid_cell b \<Longrightarrow> taxid_cell c \<Longrightarrow> val_le a b \<Longrightarrow> val_le b c \<Longrightarrow> val_le a c"
  by (cases a; cases b; cases c) (simp_all add: val_le_def taxid_cell_def)

lemma val_le_taxid_le: "taxid_cell a \<Longrightarrow> taxid_cell b \<Longrightarrow> val_le a b \<Longrightarrow> taxid_le a b"
  by (cases a; cases b) (simp_all add: val_le_def taxid_cell_def taxid_le_def)

lemma expand_cases: "distinct (map fst lm) \<Longrightarrow> a \<in> set (expand lm x) \<Longrightarrow> taxid_cell a"
  by (cases "\<exists>i. x = VInt i")
     (auto simp: expand_VInt expand_non_int taxid_cell_def split: if_splits)

lemma VInt_in_expand:
  "distinct (map fst lm) \<Longrightarrow> VInt t \<in> set (expand lm x) \<longleftrightarrow> has_ancestor lm x t"
  by (cases "\<exists>i. x = VInt i")
     (auto simp: expand_VInt expand_non_int has_ancestor_def split: val.splits)

lemma VNull_in_expand:
  "distinct (map fst lm) \<Longrightarrow> VNull \<in> set (expand lm x) \<longleftrightarrow> no_ancestors lm x"
  by (cases "\<exists>i. x = VInt i")
     (auto simp: expand_VInt expand_non_int no_ancestors_def split: val.splits)

lemma group_rows_VInt:
  "wf_lmdata lm \<Longrightarrow> group_rows lm d tc (VInt t) = subtree_rows lm d tc t"
  by (simp add: group_rows_def subtree_rows_def VInt_in_expand wf_lmdata_def)

lemma group_rows_VNull:
  "wf_lmdata lm \<Longrightarrow> group_rows lm d tc VNull = orphan_rows lm d tc"
  by (simp add: group_rows_def orphan_rows_def VNull_in_expand wf_lmdata_def)

lemma group_keys_iff: "a \<in> set (group_keys lm d tc) \<longleftrightarrow> group_rows lm d tc a \<noteq> []"
  by (auto simp: group_keys_def group_rows_def filter_empty_conv)

lemma group_keys_taxid_cell:
  assumes "wf_lmdata lm" "\<forall>v \<in> set (get_column d tc). int32_cell v" "a \<in> set (group_keys lm d tc)"
  shows "taxid_cell a"
proof -
  from assms(3) consider r where "r \<in> set (rows d)" "a \<in> set (expand lm (cell (columns d) r tc))"
    | r where "r \<in> set (rows d)" "a = cell (columns d) r tc"
    by (auto simp: group_keys_def)
  then show ?thesis
  proof cases
    case 1
    then show ?thesis using assms(1) by (auto simp: wf_lmdata_def dest: expand_cases)
  next
    case 2
    with assms(2) have "int32_cell a" by (auto simp: get_column_def)
    then show ?thesis by (auto simp: int32_cell_def taxid_cell_def split: val.splits)
  qed
qed

lemma rows_at_result:
  assumes "distinct keys"
  shows "rows_at \<lparr>columns = [''taxid'', c],
                  rows = sort_rows (\<lambda>r. cell [''taxid'', c] r ''taxid'') (map (\<lambda>a. [a, g a]) keys)\<rparr> a
         = (if a \<in> set keys then [[a, g a]] else [])"
proof -
  let ?key = "\<lambda>r. cell [''taxid'', c] r ''taxid''"
  let ?R = "map (\<lambda>a. [a, g a]) keys"
  have mk: "map ?key ?R = keys"
    by (simp add: o_def cell_def)
  then have dist: "distinct (map ?key (sort_rows ?key ?R))"
    using assms by (intro distinct_keys_sort_rows) simp
  show ?thesis
  proof (cases "a \<in> set keys")
    case True
    then have "[a, g a] \<in> set (sort_rows ?key ?R)"
      by (simp add: set_sort_rows)
    from filter_key_unique [OF dist this] True show ?thesis
      by (simp add: rows_at_def cell_def)
  next
    case False
    then have "filter (\<lambda>r. ?key r = a) (sort_rows ?key ?R) = []"
      by (auto simp: filter_empty_conv set_sort_rows cell_def)
    with False show ?thesis by (simp add: rows_at_def)
  qed
qed

lemma taxid_column_sorted:
  assumes "\<forall>a \<in> set keys. taxid_cell a" "distinct keys"
  shows "sorted_wrt taxid_le
           (get_column \<lparr>columns = [''taxid'', c],
                rows = sort_rows (\<lambda>r. cell [''taxid'', c] r ''taxid'') (map (\<lambda>a. [a, g a]) keys)\<rparr> ''taxid'')
         \<and> distinct (get_column \<lparr>columns = [''taxid'', c],
                rows = sort_rows (\<lambda>r. cell [''taxid'', c] r ''taxid'') (map (\<lambda>a. [a, g a]) keys)\<rparr> ''taxid'')
         \<and> set (get_column \<lparr>columns = [''taxid'', c],
                rows = sort_rows (\<lambda>r. cell [''taxid'', c] r ''taxid'') (map (\<lambda>a. [a, g a]) keys)\<rparr> ''taxid'')
            = set keys"
proof -
  let ?key = "\<lambda>r. cell [''taxid'', c] r ''taxid''"
  let ?R = "map (\<lambda>a. [a, g a]) keys"
  have mk: "map ?key ?R = keys"
    by (simp add: o_def cell_def)
  have img: "?key ` set ?R \<subseteq> {v. taxid_cell v}"
    using assms(1) by (auto simp: cell_def)
  have "sorted_wrt val_le (map ?key (sort_rows ?key ?R))"
  proof (rule sorted_sort_rows [OF _ _ img])
    fix a b assume "a \<in> {v. taxid_cell v}" "b \<in> {v. taxid_cell v}" "\<not> val_le a b"
    then show "val_le b a" by (simp add: val_le_total)
  next
    fix a b c assume "a \<in> {v. taxid_cell v}" "b \<in> {v. taxid_cell v}" "c \<in> {v. taxid_cell v}"
      "val_le a b" "val_le b c"
    then show "val_le a c" using val_le_trans [of a b c] by simp
  qed
  moreover have "\<forall>v \<in> set (map ?key (sort_rows ?key ?R)). taxid_cell v"
    using img by (auto simp: set_sort_rows)
  ultimately have "sorted_wrt taxid_le (map ?key (sort_rows ?key ?R))"
    by (rule_tac sorted_wrt_mono_rel [of _ val_le])
       (auto simp: val_le_taxid_le)
  moreover have "distinct (map ?key (sort_rows ?key ?R))"
    using assms(2) mk by (intro distinct_keys_sort_rows) simp
  moreover have "set (map ?key (sort_rows ?key ?R)) = set keys"
  proof -
    have "set (map ?key (sort_rows ?key ?R)) = set (map ?key ?R)"
      by (simp only: set_map set_sort_rows)
    then show ?thesis by (simp only: mk)
  qed
  ultimately show ?thesis by (simp add: get_column_def)
qed

lemma distinct_group_keys: "distinct (group_keys lm d tc)"
  by (simp add: group_keys_def)

lemma group_keys_self: "set (get_column d tc) \<subseteq> set (group_keys lm d tc)"
  by (auto simp: group_keys_def get_column_def)

lemma map_of_fn_dict_None:
  "fn \<notin> {''sum'', ''mean'', ''min'', ''max'', ''median''} \<Longrightarrow> map_of fn_dict fn = None"
  by (simp add: fn_dict_def)

lemma is_VStr_cases: "is_VStr v \<Longrightarrow> v = VStr (str_of v)"
  by (cases v) (simp_all add: is_VStr_def str_of_def)

lemma select_columns: "select es d = Inr d' \<Longrightarrow> columns d' = map output_name es"
  by (auto simp: select_def bindE_eq_Inr split: option.splits)

lemma select_leaves_fails:
  assumes "tc \<noteq> ''taxid''" "columns d = [''taxid'', c]"
  shows "select [Col tc, Col c] d =
           Inl (if tc = c then DuplicateError tc else ColumnNotFoundError tc)"
  using assms by (simp add: select_def first_missing_def)

lemma aggregate_cat_leaves_fail:
  assumes "tc \<noteq> ''taxid''"
  shows "aggregate_cat lm obj c True tc \<noteq> Inr res"
proof
  assume "aggregate_cat lm obj c True tc = Inr res"
  then obtain d1 d leaves where
    d: "select [Alias (Col tc) ''taxid'', Col c] d1 = Inr d"
    and l: "select [Col tc, Col c] d = Inr leaves"
    by (auto simp: aggregate_cat_def bindE_eq_Inr Let_def)
  from select_columns [OF d] have "columns d = [''taxid'', c]" by simp
  from select_leaves_fails [OF assms this] l show False by simp
qed

lemma aggregate_cat_leaves_error:
  assumes ok: "aggregate_cat lm obj c False tc = Inr res"
    and tc: "tc \<noteq> ''taxid''" "c \<noteq> tc"
  shows "aggregate_cat lm obj c True tc = Inl (ColumnNotFoundError tc)"
proof -
  from ok obtain d0 d1 d anc j e g r p where
    steps: "ensure_polars obj = Inr d0" "ensure_int32 d0 tc = Inr d1"
      "select [Alias (Col tc) ''taxid'', Col c] d1 = Inr d"
      "select [Col ''taxid'', Col ''pylifemap_ascend''] (LMDATA lm) = Inr anc"
      "join_left d anc ''taxid'' = Inr j"
      "explode ''pylifemap_ascend'' j = Inr e"
      "group_by_count [''pylifemap_ascend'', c] e = Inr g"
      "rename [(''pylifemap_ascend'', ''taxid'')] g = Inr r"
      "pivot ''taxid'' c ''count'' r = Inr p"
      "preprocess_counts (PolarsDataFrame (fill_null (VInt 0) p)) (unique (get_column d c)) c = Inr res"
    by (auto simp: aggregate_cat_def bindE_eq_Inr Let_def)
  from select_columns [OF steps(3)] have "columns d = [''taxid'', c]" by simp
  from select_leaves_fails [OF tc(1) this] tc(2)
  have "select [Col tc, Col c] d = Inl (ColumnNotFoundError tc)" by simp
  with steps show ?thesis
    by (simp add: aggregate_cat_def Let_def)
qed

lemma cell3:
  assumes "c \<noteq> i" "v \<noteq> i" "v \<noteq> c"
  shows "cell [i, c, v] [a, b, g] i = a" "cell [i, c, v] [a, b, g] c = b"
    "cell [i, c, v] [a, b, g] v = g"
  using assms by (simp_all add: cell_def)

lemma pivot_grouped:
  assumes names: "c \<noteq> i" "v \<noteq> i" "v \<noteq> c"
    and P: "distinct P"
    and str: "\<forall>p \<in> set P. is_VStr (snd p)"
    and i: "i \<notin> str_of ` snd ` set P"
  shows "pivot i c v \<lparr>columns = [i, c, v], rows = map (\<lambda>p. [fst p, snd p, g p]) P\<rparr> =
           Inr \<lparr>columns = i # map str_of (remdups (map snd P)),
                rows = map (\<lambda>x. x # map (\<lambda>l. if (x, l) \<in> set P then g (x, l) else VNull)
                                        (remdups (map snd P)))
                         (remdups (map fst P))\<rparr>"
proof -
  let ?d = "\<lparr>columns = [i, c, v], rows = map (\<lambda>p. [fst p, snd p, g p]) P\<rparr>"
  let ?levels = "remdups (map snd P)"
  have colc: "get_column ?d c = map snd P" and coli: "get_column ?d i = map fst P"
    using names by (simp_all add: get_column_def cell3 o_def)
  have nm: "traverse (\<lambda>l. case level_name l of
                            None \<Rightarrow> Inl (InvalidOperationError c)
                          | Some n \<Rightarrow> Inr n) ?levels = Inr (map str_of ?levels)"
  proof (rule traverse_Inr)
    fix l assume "l \<in> set ?levels"
    with str have "is_VStr l" by auto
    from is_VStr_cases [OF this] obtain s where "l = VStr s" "str_of l = s" by (cases l) auto
    then show "(case level_name l of None \<Rightarrow> Inl (InvalidOperationError c) | Some n \<Rightarrow> Inr n)
                 = Inr (str_of l)" by simp
  qed
  have inj: "inj_on str_of (set ?levels)"
  proof (rule inj_onI)
    fix a b assume "a \<in> set ?levels" "b \<in> set ?levels" "str_of a = str_of b"
    with str have "is_VStr a" "is_VStr b" by auto
    with \<open>str_of a = str_of b\<close> show "a = b"
      using is_VStr_cases [of a] is_VStr_cases [of b] by simp
  qed
  have dup: "first_duplicate (map str_of ?levels) = None"
    using inj by (simp add: first_duplicate_None distinct_map)
  have pc: "pivot_cell ?d i c v x l = Inr (if (x, l) \<in> set P then g (x, l) else VNull)" for x l
  proof -
    have "map (\<lambda>r. cell [i, c, v] r v)
            (filter (\<lambda>r. cell [i, c, v] r i = x \<and> cell [i, c, v] r c = l)
               (map (\<lambda>p. [fst p, snd p, g p]) P)) = map g (filter (\<lambda>p. p = (x, l)) P)"
      using names by (simp add: filter_map o_def cell3 prod_eq_iff)
    then show ?thesis
      using P by (simp add: pivot_cell_def filter_eq_distinct)
  qed
  have rw: "traverse (\<lambda>x. bindE (traverse (pivot_cell ?d i c v x) ?levels) (\<lambda>vs. Inr (x # vs)))
              (remdups (map fst P)) =
            Inr (map (\<lambda>x. x # map (\<lambda>l. if (x, l) \<in> set P then g (x, l) else VNull) ?levels)
                   (remdups (map fst P)))"
  proof (rule traverse_Inr)
    fix x
    have "traverse (pivot_cell ?d i c v x) ?levels =
            Inr (map (\<lambda>l. if (x, l) \<in> set P then g (x, l) else VNull) ?levels)"
      by (rule traverse_Inr) (simp add: pc)
    then show "bindE (traverse (pivot_cell ?d i c v x) ?levels) (\<lambda>vs. Inr (x # vs)) =
        Inr (x # map (\<lambda>l. if (x, l) \<in> set P then g (x, l) else VNull) ?levels)"
      by simp
  qed
  show ?thesis
    unfolding pivot_def colc coli Let_def
    using i by (simp add: first_missing_def nm dup rw)
qed

lemma key_of_pair: "key_of cs [k1, k2] = (\<lambda>r. [cell cs r k1, cell cs r k2])"
  by (rule ext) (simp add: key_of_def)

lemma remdups_map_pair:
  "remdups (map (\<lambda>p. [fst p, snd p]) xs) = map (\<lambda>p. [fst p, snd p]) (remdups xs)"
  by (induction xs) (auto simp: prod_eq_iff)

lemma group_by_count_exploded:
  assumes names: "c \<noteq> ''taxid''" "c \<noteq> ''pylifemap_ascend''" "c \<noteq> ''count''"
  shows "group_by_count [''pylifemap_ascend'', c]
           \<lparr>columns = [''taxid'', c, ''pylifemap_ascend''],
            rows = map (\<lambda>q. [fst q, snd (snd q), fst (snd q)]) X\<rparr> =
         Inr \<lparr>columns = [''pylifemap_ascend'', c, ''count''],
              rows = map (\<lambda>p. [fst p, snd p,
                                 VInt (int (length (filter (\<lambda>p'. p' = p) (map snd X))))])
                       (remdups (map snd X))\<rparr>"
proof -
  let ?cs = "[''taxid'', c, ''pylifemap_ascend'']"
  let ?f = "\<lambda>q. [fst q, snd (snd q), fst (snd q)] :: val list"
  have key: "cell ?cs (?f q) ''pylifemap_ascend'' = fst (snd q)" "cell ?cs (?f q) c = snd (snd q)" for q
    using names by (simp_all add: cell_def)
  have R: "remdups (map (\<lambda>x. [fst (snd x), snd (snd x)]) X) =
      map (\<lambda>p. [fst p, snd p]) (remdups (map snd X))"
    using remdups_map_pair [of "map snd X"] by (simp add: o_def)
  show ?thesis
    using names
    by (simp add: group_by_count_def group_by_len_def key_of_pair first_missing_def key R
          o_def prod_eq_iff)
qed

lemma rename_ascend3:
  assumes "c \<noteq> ''taxid''" "c \<noteq> ''pylifemap_ascend''" "c \<noteq> ''count''"
  shows "rename [(''pylifemap_ascend'', ''taxid'')]
           \<lparr>columns = [''pylifemap_ascend'', c, ''count''], rows = R\<rparr> =
         Inr \<lparr>columns = [''taxid'', c, ''count''], rows = R\<rparr>"
  using assms by (simp add: rename_def first_missing_def)

lemma exploded_rows_triples:
  "concat (map (\<lambda>r. map (\<lambda>a. r @ [a]) (expand lm (hd r)))
             (map (\<lambda>r. [cell (columns d) r tc, cell (columns d) r c]) (rows d))) =
   map (\<lambda>q. [fst q, snd (snd q), fst (snd q)])
     (concat (map (\<lambda>r. map (\<lambda>a. (cell (columns d) r tc, a, cell (columns d) r c))
                           (expand lm (cell (columns d) r tc))) (rows d)))"
  by (simp add: map_concat o_def)

lemma exploded_pairs_triples:
  "map snd (concat (map (\<lambda>r. map (\<lambda>a. (cell (columns d) r tc, a, cell (columns d) r c))
                           (expand lm (cell (columns d) r tc))) (rows d))) =
   exploded_pairs lm d tc c"
  by (simp add: exploded_pairs_def map_concat o_def)

lemma numeric_columnI:
  assumes "wf_frame d" "c \<in> set (columns d)" "\<forall>r \<in> set (rows d). \<forall>y \<in> set r. val_rank y \<le> 1"
  shows "numeric_column d c"
proof -
  have "val_rank (cell (columns d) r c) \<le> 1" if "r \<in> set (rows d)" for r
  proof -
    from that assms(1) have "length r = length (columns d)" by (simp add: wf_frame_def)
    with assms(2) have "cell (columns d) r c \<in> set r"
      by (simp add: cell_def index_of_less)
    with that assms(3) show ?thesis by blast
  qed
  then show ?thesis by (simp add: numeric_column_def get_column_def list_all_iff)
qed

lemma fill_null_numeric:
  assumes wf: "wf_frame d" and num: "\<forall>r \<in> set (rows d). \<forall>y \<in> set r. val_rank y \<le> 1"
  shows "fill_null v d =
           \<lparr>columns = columns d,
            rows = map (map (\<lambda>y. if y = VNull then v else y)) (rows d)\<rparr>"
proof -
  have "map (\<lambda>c. if cell (columns d) r c = VNull \<and> numeric_column d c then v
                  else cell (columns d) r c) (columns d) =
        map (\<lambda>y. if y = VNull then v else y) r" if r: "r \<in> set (rows d)" for r
  proof -
    from r wf have lr: "length r = length (columns d)" and dist: "distinct (columns d)"
      by (simp_all add: wf_frame_def)
    have "map (\<lambda>c. if cell (columns d) r c = VNull \<and> numeric_column d c then v
                  else cell (columns d) r c) (columns d) =
          map (\<lambda>y. if y = VNull then v else y) (map (cell (columns d) r) (columns d))"
      using numeric_columnI [OF wf _ num] by (simp add: o_def cong: map_cong)
    then show ?thesis by (simp add: map_cell_id [OF dist lr])
  qed
  then show ?thesis by (simp add: fill_null_def cong: map_cong)
qed

lemma col_names_VStr: "col_names (map VStr names) = Inr names"
  by (induction names) simp_all

lemma index_of_append_Cons: "c \<notin> set cs \<Longrightarrow> index_of (cs @ c # ds) c = length cs"
  by (induction cs) auto

lemma cell_tail_zip:
  assumes "distinct names" "c0 \<notin> set names" "length r = Suc (length names)"
  shows "map (\<lambda>f. (f, cell (c0 # names) r f)) names = zip names (tl r)"
proof -
  from assms(3) obtain y ys where r: "r = y # ys" and l: "length ys = length names"
    by (cases r) auto
  have "map (\<lambda>f. (f, cell (c0 # names) (y # ys) f)) names = map (\<lambda>f. (f, cell names ys f)) names"
    using assms(2) by (intro map_cong refl) (auto simp: cell_def)
  also have "\<dots> = zip names (map (cell names ys) names)"
    by (simp add: zip_map2 zip_same_conv_map)
  also have "\<dots> = zip names ys"
    by (simp add: map_cell_id [OF assms(1) l])
  finally show ?thesis by (simp add: r)
qed

lemma preprocess_counts_pivoted:
  assumes ne: "names \<noteq> []" and dist: "distinct names"
    and out: "''taxid'' \<notin> set names" "c \<notin> set names" "''pylifemap_count_type'' \<notin> set names"
    and c: "c \<noteq> ''taxid''" "c \<noteq> ''pylifemap_count_type''"
    and len: "\<forall>r \<in> set R. length r = Suc (length names)"
  shows "preprocess_counts (PolarsDataFrame \<lparr>columns = ''taxid'' # names, rows = R\<rparr>)
           (map VStr names) c =
         Inr \<lparr>columns = [''taxid'', c, ''pylifemap_count_type''],
              rows = map (\<lambda>r. [hd r, VJson (zip names (tl r)), VStr ''count'']) R\<rparr>"
proof -
  let ?cs = "''taxid'' # names"
  let ?es = "[Alias (StructJsonEncode names) c, Alias (Lit (VStr ''count'')) ''pylifemap_count_type'']"
  let ?cs' = "?cs @ [c, ''pylifemap_count_type'']"
  let ?R' = "map (\<lambda>r. r @ [VJson (zip names (tl r)), VStr ''count'']) R"
  have dcs: "distinct ?cs" using dist out by simp
  have tr: "traverse
          (\<lambda>r. bindE (traverse (eval_row ?cs r) ?es)
             (\<lambda>vs. Inr (map (\<lambda>c'. case map_of (zip [c, ''pylifemap_count_type''] vs) c' of
                                    Some v \<Rightarrow> v
                                  | None \<Rightarrow> cell ?cs r c') ?cs')))
          R = Inr ?R'"
  proof (rule traverse_Inr)
    fix r assume r: "r \<in> set R"
    with len have lr: "length r = length ?cs" by simp
    have "map (\<lambda>c'. case map_of [(c, j), (''pylifemap_count_type'', k)] c' of
                     Some v \<Rightarrow> v | None \<Rightarrow> cell ?cs r c') ?cs = map (cell ?cs r) ?cs" for j k
      using out c by (intro map_cong refl) auto
    then have "map (\<lambda>c'. case map_of [(c, j), (''pylifemap_count_type'', k)] c' of
                     Some v \<Rightarrow> v | None \<Rightarrow> cell ?cs r c') ?cs = r" for j k
      by (simp only: map_cell_id [OF dcs lr])
    moreover have "map (\<lambda>f. (f, cell ?cs r f)) names = zip names (tl r)"
      using cell_tail_zip [OF dist out(1)] lr by simp
    ultimately show "bindE (traverse (eval_row ?cs r) ?es)
             (\<lambda>vs. Inr (map (\<lambda>c'. case map_of (zip [c, ''pylifemap_count_type''] vs) c' of
                                    Some v \<Rightarrow> v
                                  | None \<Rightarrow> cell ?cs r c') ?cs')) =
          Inr (r @ [VJson (zip names (tl r)), VStr ''count''])"
      using c by simp
  qed
  have fm: "first_missing ?cs names = None"
    by (auto simp: first_missing_None)
  have wc: "with_columns ?es \<lparr>columns = ?cs, rows = R\<rparr> = Inr \<lparr>columns = ?cs', rows = ?R'\<rparr>"
    using ne out c tr
    by (simp add: with_columns_def fm Let_def cong: option.case_cong)
  have keep: "filter (\<lambda>x. x \<notin> set names) ?cs' = [''taxid'', c, ''pylifemap_count_type'']"
    using out by simp
  have sel: "traverse (\<lambda>r. traverse (eval_row ?cs' r)
                 [Col ''taxid'', Col c, Col ''pylifemap_count_type'']) ?R' =
        Inr (map (\<lambda>r. [hd r, VJson (zip names (tl r)), VStr ''count'']) R)"
  proof -
    have "traverse (\<lambda>r. traverse (eval_row ?cs' r)
                 [Col ''taxid'', Col c, Col ''pylifemap_count_type'']) ?R' =
        Inr (map (\<lambda>r. [cell ?cs' r ''taxid'', cell ?cs' r c, cell ?cs' r ''pylifemap_count_type'']) ?R')"
      by (rule traverse_Inr) simp
    also have "map (\<lambda>r. [cell ?cs' r ''taxid'', cell ?cs' r c, cell ?cs' r ''pylifemap_count_type'']) ?R'
        = map (\<lambda>r. [hd r, VJson (zip names (tl r)), VStr ''count'']) R"
    proof -
      have "[cell ?cs' (r @ [j, k]) ''taxid'', cell ?cs' (r @ [j, k]) c,
             cell ?cs' (r @ [j, k]) ''pylifemap_count_type''] = [hd r, j, k]"
        if "r \<in> set R" for r j k
      proof -
        from that len have "length r = Suc (length names)" by blast
        then obtain y ys where r: "r = y # ys" and l: "length ys = length names"
          by (cases r) auto
        have i1: "index_of (names @ [c, ''pylifemap_count_type'']) c = length names"
          using out by (simp add: index_of_append_Cons)
        have i2: "index_of (names @ [c, ''pylifemap_count_type'']) ''pylifemap_count_type'' = Suc (length names)"
          using out c index_of_append [of "''pylifemap_count_type''" "names @ [c]"] by simp
        show ?thesis
          using c out by (simp add: r cell_def i1 i2 nth_append l)
      qed
      then show ?thesis by (simp add: o_def cong: map_cong)
    qed
    finally show ?thesis .
  qed
  have "select_all_exclude names \<lparr>columns = ?cs', rows = ?R'\<rparr> =
      Inr \<lparr>columns = [''taxid'', c, ''pylifemap_count_type''],
           rows = map (\<lambda>r. [hd r, VJson (zip names (tl r)), VStr ''count'']) R\<rparr>"
    unfolding select_all_exclude_def
    using out c sel by (simp add: select_def first_missing_def keep)
  with wc show ?thesis
    by (simp add: preprocess_counts_def ensure_polars_def col_names_VStr)
qed

lemma expand_nonempty: "distinct (map fst lm) \<Longrightarrow> expand lm x \<noteq> []"
  by (cases "\<exists>i. x = VInt i") (auto simp: expand_VInt expand_non_int split: if_splits)

lemma remdups_replicate_append:
  "0 < n \<Longrightarrow> remdups (replicate n x @ ys) = remdups (x # ys)"
proof (induction n)
  case 0
  then show ?case by simp
next
  case (Suc n)
  then show ?case by (cases n) auto
qed

lemma exploded_pairs_fst:
  "map fst (exploded_pairs lm d tc c) =
     concat (map (\<lambda>r. expand lm (cell (columns d) r tc)) (rows d))"
  by (simp add: exploded_pairs_def map_concat o_def)

lemma exploded_pairs_levels:
  assumes "distinct (map fst lm)"
  shows "remdups (map snd (exploded_pairs lm d tc c)) = cat_levels d c"
proof -
  have "remdups (map snd (concat (map (\<lambda>r. map (\<lambda>a. (a, C r)) (expand lm (T r))) rs))) =
        remdups (map C rs)" for rs :: "val list list" and C T
  proof (induction rs)
    case Nil
    then show ?case by simp
  next
    case (Cons r rs)
    have "map snd (map (\<lambda>a. (a, C r)) (expand lm (T r))) = replicate (length (expand lm (T r))) (C r)"
      by (simp add: o_def map_replicate_const)
    moreover have "0 < length (expand lm (T r))"
      using expand_nonempty [OF assms] by simp
    ultimately have hd: "remdups (map snd (map (\<lambda>a. (a, C r)) (expand lm (T r))) @ ys) = remdups (C r # ys)" for ys
      by (simp only: remdups_replicate_append)
    let ?xs = "map snd (concat (map (\<lambda>r. map (\<lambda>a. (a, C r)) (expand lm (T r))) rs))"
    from Cons have "set (remdups ?xs) = set (remdups (map C rs))" by simp
    then have sets: "set ?xs = set (map C rs)" by (simp only: set_remdups)
    have "remdups (map snd (concat (map (\<lambda>r. map (\<lambda>a. (a, C r)) (expand lm (T r))) (r # rs)))) =
          remdups (map snd (map (\<lambda>a. (a, C r)) (expand lm (T r))) @ ?xs)"
      by simp
    also have "\<dots> = remdups (C r # ?xs)" by (rule hd)
    also have "\<dots> = remdups (C r # map C rs)"
      using sets Cons by (simp del: set_map)
    finally show ?case by simp
  qed
  then show ?thesis
    by (simp add: exploded_pairs_def cat_levels_def get_column_def)
qed

lemma exploded_pairs_count:
  assumes "wf_lmdata lm"
  shows "int (length (filter (\<lambda>p. p = (x, l)) (exploded_pairs lm d tc c))) = cat_count lm d tc c x l"
proof -
  have "length (filter (\<lambda>p. p = (x, l)) (concat (map (\<lambda>r. map (\<lambda>a. (a, C r)) (expand lm (T r))) rs))) =
        length (filter (\<lambda>r. x \<in> set (expand lm (T r)) \<and> C r = l) rs)"
    for rs :: "val list list" and C T
  proof (induction rs)
    case Nil
    then show ?case by simp
  next
    case (Cons r rs)
    have "filter (\<lambda>p. p = (x, l)) (map (\<lambda>a. (a, C r)) (expand lm (T r))) =
          map (\<lambda>a. (a, C r)) (filter (\<lambda>a. a = x \<and> C r = l) (expand lm (T r)))"
      by (simp add: filter_map o_def)
    also have "length \<dots> = (if x \<in> set (expand lm (T r)) \<and> C r = l then 1 else 0)"
      using expand_distinct [OF assms, of "T r"]
      by (cases "C r = l") (simp_all add: filter_eq_distinct)
    finally show ?case using Cons by simp
  qed
  then show ?thesis
    by (simp add: exploded_pairs_def cat_count_def)
qed

lemma aggregate_cat_unfold:
  assumes obj: "ensure_polars obj = Inr d" and wf: "wf_frame d"
    and tc: "tc \<in> set (columns d)" and c: "c \<in> set (columns d)"
    and ok: "\<forall>v \<in> set (get_column d tc). int32_cell v"
    and lm: "wf_lmdata lm"
    and names: "c \<noteq> ''taxid''" "c \<noteq> ''pylifemap_ascend''" "c \<noteq> ''count''"
      "c \<noteq> ''pylifemap_count_type''"
    and str: "\<forall>v \<in> set (get_column d c). is_VStr v"
    and lv: "\<forall>v \<in> set (get_column d c). str_of v \<notin> {''taxid'', c, ''pylifemap_count_type''}"
    and ne: "rows d \<noteq> []"
  shows "aggregate_cat lm obj c keep_leaves tc =
           (if keep_leaves then
              bindE (select [Col tc, Col c]
                       \<lparr>columns = [''taxid'', c],
                        rows = map (\<lambda>r. [cell (columns d) r tc, cell (columns d) r c]) (rows d)\<rparr>)
                (\<lambda>leaves.
                   bindE (with_columns [Alias (Lit (VStr ''leaf'')) ''pylifemap_count_type''] leaves)
                     (\<lambda>leaves. pl_concat VerticalRelaxed
                        [\<lparr>columns = [''taxid'', c, ''pylifemap_count_type''],
                          rows = count_rows lm d tc c\<rparr>, leaves]))
            else Inr \<lparr>columns = [''taxid'', c, ''pylifemap_count_type''],
                      rows = count_rows lm d tc c\<rparr>)"
proof -
  let ?cs = "[''taxid'', c]"
  let ?rs = "map (\<lambda>r. [cell (columns d) r tc, cell (columns d) r c]) (rows d)"
  let ?d2 = "\<lparr>columns = ?cs, rows = ?rs\<rparr>"
  let ?A = "exploded_pairs lm d tc c"
  let ?levels = "cat_levels d c"
  let ?names = "map str_of ?levels"
  let ?keys = "ancestor_keys lm d tc"
  let ?cnt = "\<lambda>p. VInt (int (length (filter (\<lambda>p'. p' = p) ?A)))"
  have klm: "distinct (map fst lm)" using lm by (simp add: wf_lmdata_def)
  have cs: "?cs = ''taxid'' # [c]" "''pylifemap_ascend'' \<notin> set ?cs" "distinct ?cs"
    using names by auto
  have len: "\<forall>r \<in> set ?rs. length r = length ?cs" by simp
  have s1: "select [Alias (Col tc) ''taxid'', Col c] d = Inr ?d2"
    by (rule select_pair [OF tc c names(1)])
  have lev: "unique (get_column ?d2 c) = ?levels"
    using names(1) by (simp add: unique_def get_column_def cat_levels_def o_def cell_def)
  let ?X = "concat (map (\<lambda>r. map (\<lambda>a. (cell (columns d) r tc, a, cell (columns d) r c))
                           (expand lm (cell (columns d) r tc))) (rows d))"
  let ?E = "\<lparr>columns = [''taxid'', c, ''pylifemap_ascend''],
             rows = map (\<lambda>q. [fst q, snd (snd q), fst (snd q)]) ?X\<rparr>"
  let ?J = "\<lparr>columns = [''taxid'', c, ''pylifemap_ascend''],
             rows = concat (map (\<lambda>r. map (\<lambda>l. r @ [l]) (matches lm (hd r))) ?rs)\<rparr>"
  have sJ: "join_left ?d2 (LMDATA lm) ''taxid'' = Inr ?J"
    using join_LMDATA [OF cs len, of lm] by (simp del: map_map)
  have sE: "explode ''pylifemap_ascend'' ?J = Inr ?E"
    using explode_joined [OF cs(2) len, of lm]
    by (simp add: exploded_rows_triples del: map_map)
  let ?Grp = "\<lparr>columns = [''pylifemap_ascend'', c, ''count''],
              rows = map (\<lambda>p. [fst p, snd p, ?cnt p]) (remdups ?A)\<rparr>"
  have s4: "group_by_count [''pylifemap_ascend'', c] ?E = Inr ?Grp"
    using group_by_count_exploded [OF names(1-3), of ?X]
    by (simp only: exploded_pairs_triples)
  let ?G = "\<lparr>columns = [''taxid'', c, ''count''],
             rows = map (\<lambda>p. [fst p, snd p, ?cnt p]) (remdups ?A)\<rparr>"
  have s5: "rename [(''pylifemap_ascend'', ''taxid'')] ?Grp = Inr ?G"
    by (rule rename_ascend3 [OF names(1-3)])
  have sndA: "snd ` set ?A \<subseteq> set (get_column d c)"
    by (auto simp: exploded_pairs_def get_column_def)
  have levels: "remdups (map snd (remdups ?A)) = ?levels"
    by (simp only: remdups_map_remdups exploded_pairs_levels [OF klm])
  have keys: "remdups (map fst (remdups ?A)) = ?keys"
    by (simp only: remdups_map_remdups exploded_pairs_fst ancestor_keys_def)
  let ?Pv = "\<lparr>columns = ''taxid'' # ?names,
              rows = map (\<lambda>x. x # map (\<lambda>l. if (x, l) \<in> set (remdups ?A) then ?cnt (x, l) else VNull)
                                      ?levels) ?keys\<rparr>"
  have s6: "pivot ''taxid'' c ''count'' ?G = Inr ?Pv"
  proof -
    have "\<forall>p \<in> set (remdups ?A). is_VStr (snd p)"
      using sndA str by auto
    moreover have "''taxid'' \<notin> str_of ` snd ` set (remdups ?A)"
    proof
      assume "''taxid'' \<in> str_of ` snd ` set (remdups ?A)"
      then obtain p where p: "p \<in> set ?A" "str_of (snd p) = ''taxid''" by auto
      with sndA have "snd p \<in> set (get_column d c)" by auto
      with lv p(2) show False by auto
    qed
    ultimately show ?thesis
      using pivot_grouped [of c "''taxid''" "''count''" "remdups ?A" ?cnt] names
      by (simp only: levels keys distinct_remdups) simp
  qed
  let ?F = "\<lparr>columns = ''taxid'' # ?names,
             rows = map (\<lambda>x. fill0 x # map (\<lambda>l. VInt (cat_count lm d tc c x l)) ?levels) ?keys\<rparr>"
  have lstr: "\<forall>l \<in> set ?levels. is_VStr l"
    using str by (simp add: cat_levels_def)
  have inj: "inj_on str_of (set ?levels)"
  proof (rule inj_onI)
    fix a b assume "a \<in> set ?levels" "b \<in> set ?levels" "str_of a = str_of b"
    with lstr have "is_VStr a" "is_VStr b" by auto
    with \<open>str_of a = str_of b\<close> show "a = b"
      using is_VStr_cases [of a] is_VStr_cases [of b] by simp
  qed
  have dn: "distinct ?names"
    using inj by (simp add: distinct_map cat_levels_def)
  have tn: "''taxid'' \<notin> set ?names" "c \<notin> set ?names" "''pylifemap_count_type'' \<notin> set ?names"
    using lv by (auto simp: cat_levels_def)
  have kc: "\<forall>x \<in> set ?keys. taxid_cell x"
    by (auto simp: ancestor_keys_def dest: expand_cases [OF klm])
  have s7: "fill_null (VInt 0) ?Pv = ?F"
  proof -
    have wfp: "wf_frame ?Pv"
      using dn tn by (simp add: wf_frame_def)
    have num: "\<forall>r \<in> set (rows ?Pv). \<forall>y \<in> set r. val_rank y \<le> 1"
      using kc by (auto dest!: taxid_cell_cases)
    have a: "int (length (filter (\<lambda>p'. p' = (x, l)) ?A)) = cat_count lm d tc c x l" for x l
      by (rule exploded_pairs_count [OF lm])
    have b: "cat_count lm d tc c x l = 0" if "(x, l) \<notin> set ?A" for x l
    proof -
      from that have "filter (\<lambda>p. p = (x, l)) ?A = []"
        by (auto simp: filter_empty_conv)
      then show ?thesis
        using a [of x l] by simp
    qed
    show ?thesis
      unfolding fill_null_numeric [OF wfp num]
      by (simp add: fill0_def o_def a b)
  qed
  have s8: "preprocess_counts (PolarsDataFrame ?F) ?levels c =
      Inr \<lparr>columns = [''taxid'', c, ''pylifemap_count_type''], rows = count_rows lm d tc c\<rparr>"
  proof -
    have lvs: "map VStr ?names = ?levels"
      using lstr by (simp add: map_idI is_VStr_cases [symmetric])
    have nn: "?names \<noteq> []"
      using ne by (simp add: cat_levels_def get_column_def)
    have ln: "\<forall>r \<in> set (rows ?F). length r = Suc (length ?names)"
      by simp
    have "preprocess_counts (PolarsDataFrame ?F) (map VStr ?names) c =
      Inr \<lparr>columns = [''taxid'', c, ''pylifemap_count_type''],
           rows = map (\<lambda>r. [hd r, VJson (zip ?names (tl r)), VStr ''count'']) (rows ?F)\<rparr>"
      using preprocess_counts_pivoted [OF nn dn tn names(1) names(4), of "rows ?F"] ln
      by simp
    then show ?thesis
      unfolding lvs by (simp add: count_rows_def o_def zip_map_map zip_same_conv_map)
  qed
  show ?thesis
    by (simp only: aggregate_cat_def obj bindE_Inr ensure_int32_id [OF wf tc ok] s1 Let_def lev
          select_LMDATA sJ sE s4 s5 s6 s7 s8)
qed

lemma select_leaves_taxid:
  assumes "c \<noteq> ''taxid''"
  shows "select [Col ''taxid'', Col c] \<lparr>columns = [''taxid'', c], rows = map (\<lambda>r. [f r, g r]) rs\<rparr> =
           Inr \<lparr>columns = [''taxid'', c], rows = map (\<lambda>r. [f r, g r]) rs\<rparr>"
proof -
  have "traverse (\<lambda>r. traverse (eval_row [''taxid'', c] r) [Col ''taxid'', Col c])
          (map (\<lambda>r. [f r, g r]) rs) = Inr (map (\<lambda>r. r) (map (\<lambda>r. [f r, g r]) rs))"
    using assms by (intro traverse_Inr) (auto simp: cell_def)
  then show ?thesis
    using assms by (simp add: select_def first_missing_def)
qed

lemma with_columns_leaf:
  assumes "c \<noteq> ''taxid''" "c \<noteq> ''pylifemap_count_type''"
  shows "with_columns [Alias (Lit (VStr ''leaf'')) ''pylifemap_count_type'']
           \<lparr>columns = [''taxid'', c], rows = map (\<lambda>r. [f r, g r]) rs\<rparr> =
         Inr \<lparr>columns = [''taxid'', c, ''pylifemap_count_type''],
              rows = map (\<lambda>r. [f r, g r, VStr ''leaf'']) rs\<rparr>"
proof -
  have "traverse
          (\<lambda>r. bindE (traverse (eval_row [''taxid'', c] r) [Alias (Lit (VStr ''leaf'')) ''pylifemap_count_type''])
             (\<lambda>vs. Inr (map (\<lambda>c'. case map_of (zip [''pylifemap_count_type''] vs) c' of
                                    Some v \<Rightarrow> v
                                  | None \<Rightarrow> cell [''taxid'', c] r c')
                           [''taxid'', c, ''pylifemap_count_type''])))
          (map (\<lambda>r. [f r, g r]) rs) = Inr (map (\<lambda>r. r @ [VStr ''leaf'']) (map (\<lambda>r. [f r, g r]) rs))"
    using assms by (intro traverse_Inr) (auto simp: cell_def)
  then show ?thesis
    using assms by (simp add: with_columns_def Let_def o_def cong: option.case_cong)
qed

lemma aggregate_cat_result:
  assumes obj: "ensure_polars obj = Inr d" and wf: "wf_frame d"
    and tc: "tc \<in> set (columns d)" and c: "c \<in> set (columns d)"
    and ok: "\<forall>v \<in> set (get_column d tc). int32_cell v"
    and lm: "wf_lmdata lm"
    and names: "c \<noteq> ''taxid''" "c \<noteq> ''pylifemap_ascend''" "c \<noteq> ''count''"
      "c \<noteq> ''pylifemap_count_type''"
    and str: "\<forall>v \<in> set (get_column d c). is_VStr v"
    and lv: "\<forall>v \<in> set (get_column d c). str_of v \<notin> {''taxid'', c, ''pylifemap_count_type''}"
    and ne: "rows d \<noteq> []"
    and kl: "keep_leaves \<longrightarrow> tc = ''taxid''"
  shows "aggregate_cat lm obj c keep_leaves tc =
           Inr \<lparr>columns = [''taxid'', c, ''pylifemap_count_type''],
                rows = count_rows lm d tc c @ (if keep_leaves then leaf_rows d tc c else [])\<rparr>"
  unfolding aggregate_cat_unfold [OF obj wf tc c ok lm names str lv ne]
  using kl names
  by (simp add: select_leaves_taxid with_columns_leaf leaf_rows_def)

lemma VInt_in_ancestor_keys:
  assumes "wf_lmdata lm"
  shows "VInt t \<in> set (ancestor_keys lm d tc) \<longleftrightarrow> descendant_rows lm d tc t \<noteq> []"
  using assms
  by (auto simp: ancestor_keys_def descendant_rows_def filter_empty_conv VInt_in_expand wf_lmdata_def)

lemma cat_count_VInt:
  assumes "wf_lmdata lm"
  shows "cat_count lm d tc c (VInt t) l =
           int (length (filter (\<lambda>r. cell (columns d) r c = l) (descendant_rows lm d tc t)))"
  using assms
  by (simp add: cat_count_def descendant_rows_def VInt_in_expand wf_lmdata_def conj_commute)

lemma fill0_eq_VInt: "t \<noteq> 0 \<Longrightarrow> fill0 x = VInt t \<longleftrightarrow> x = VInt t"
  by (auto simp: fill0_def)

lemma count_rows_at_result:
  assumes c: "c \<noteq> ''taxid''" "c \<noteq> ''pylifemap_count_type''" and t: "t \<noteq> 0" and lm: "wf_lmdata lm"
  shows "count_rows_at \<lparr>columns = [''taxid'', c, ''pylifemap_count_type''],
                         rows = count_rows lm d tc c @ (if k then leaf_rows d tc c else [])\<rparr> (VInt t) =
         (if descendant_rows lm d tc t = [] then []
          else [[VInt t,
                 VJson (map (\<lambda>l. (str_of l, VInt (int (length
                          (filter (\<lambda>r. cell (columns d) r c = l) (descendant_rows lm d tc t))))))
                        (cat_levels d c)),
                 VStr ''count'']])"
proof -
  let ?cs = "[''taxid'', c, ''pylifemap_count_type'']"
  let ?P = "\<lambda>r. cell ?cs r ''taxid'' = VInt t \<and> cell ?cs r ''pylifemap_count_type'' = VStr ''count''"
  have leaf: "filter ?P (leaf_rows d tc c) = []"
    using c by (auto simp: leaf_rows_def filter_empty_conv cell_def)
  have cnt: "filter ?P (count_rows lm d tc c) =
      map (\<lambda>x. [fill0 x,
                VJson (map (\<lambda>l. (str_of l, VInt (cat_count lm d tc c x l))) (cat_levels d c)),
                VStr ''count''])
        (filter (\<lambda>x. x = VInt t) (ancestor_keys lm d tc))"
    using c by (simp add: count_rows_def filter_map o_def cell_def fill0_eq_VInt [OF t])
  have "distinct (ancestor_keys lm d tc)" by (simp add: ancestor_keys_def)
  then have "filter (\<lambda>x. x = VInt t) (ancestor_keys lm d tc) =
      (if descendant_rows lm d tc t = [] then [] else [VInt t])"
    by (simp add: filter_eq_distinct VInt_in_ancestor_keys [OF lm])
  then show ?thesis
    by (simp add: count_rows_at_def leaf cnt cat_count_VInt [OF lm] fill0_def)
qed

lemma cast_Int32_taxid_cell: "cast_Int32 n v = Inr w \<Longrightarrow> taxid_cell w"
  by (cases v)
     (auto simp: taxid_cell_def checked_int32_def split: if_splits option.splits)

lemma traverse_set:
  "traverse f xs = Inr ys \<Longrightarrow> y \<in> set ys \<Longrightarrow> \<exists>x \<in> set xs. f x = Inr y"
proof (induction xs arbitrary: ys)
  case Nil
  then show ?case by simp
next
  case (Cons x xs)
  then show ?case by (auto split: sum.splits)
qed

lemma ensure_int32_cells:
  assumes "ensure_int32 d k = Inr d1"
  shows "k \<in> set (columns d) \<and> columns d1 = columns d \<and>
         (\<forall>v \<in> set (get_column d1 k). taxid_cell v)"
proof -
  let ?cs = "columns d"
  let ?f = "\<lambda>r. bindE (traverse (eval_row ?cs r) [CastInt32 (Col k)])
             (\<lambda>vs. Inr (map (\<lambda>c'. case map_of (zip [k] vs) c' of
                                    Some v \<Rightarrow> v
                                  | None \<Rightarrow> cell ?cs r c') ?cs))"
  from assms have k: "k \<in> set ?cs"
    by (auto simp: ensure_int32_def with_columns_def first_missing_def split: if_splits)
  with assms obtain rs where rs: "traverse ?f (rows d) = Inr rs"
    and d1: "d1 = \<lparr>columns = ?cs, rows = rs\<rparr>"
    by (auto simp: ensure_int32_def with_columns_def first_missing_def Let_def bindE_eq_Inr
          cong: option.case_cong)
  have "taxid_cell (cell ?cs r1 k)" if "r1 \<in> set rs" for r1
  proof -
    from traverse_set [OF rs that] obtain r where r: "?f r = Inr r1" by blast
    then obtain y where y: "cast_Int32 k (cell ?cs r k) = Inr y"
      and r1: "r1 = map (\<lambda>c'. case map_of [(k, y)] c' of Some v \<Rightarrow> v | None \<Rightarrow> cell ?cs r c') ?cs"
      by (auto simp: bindE_eq_Inr split: sum.splits)
    have "cell ?cs r1 k = y"
      using k by (simp add: r1 cell_def index_of_less nth_index_of)
    with cast_Int32_taxid_cell [OF y] show ?thesis by simp
  qed
  with k d1 show ?thesis by (simp add: get_column_def)
qed

lemma col_names_Inr: "col_names ls = Inr names \<Longrightarrow> ls = map VStr names"
proof (induction ls arbitrary: names rule: col_names.induct)
  case 1
  then show ?case by simp
next
  case (2 s vs)
  then show ?case by (auto simp: bindE_eq_Inr)
qed simp_all

lemma preprocess_counts_levels:
  assumes "preprocess_counts p ls c = Inr res"
  shows "ls \<noteq> [] \<and> (\<forall>l \<in> set ls. is_VStr l)"
proof -
  from assms obtain d names w where n: "col_names ls = Inr names"
    and w: "with_columns [Alias (StructJsonEncode names) c,
               Alias (Lit (VStr ''count'')) ''pylifemap_count_type''] d = Inr w"
    by (auto simp: preprocess_counts_def bindE_eq_Inr)
  from w have "names \<noteq> []"
    by (auto simp: with_columns_def split: option.splits if_splits)
  with col_names_Inr [OF n] show ?thesis
    by (auto simp: is_VStr_def)
qed

lemma aggregate_cat_column_differs:
  assumes ok: "aggregate_cat lm obj c False tc = Inr res" and tc: "tc \<noteq> ''taxid''"
  shows "c \<noteq> tc"
proof
  assume eq: "c = tc"
  from ok obtain d0 d1 d p where
    steps: "ensure_int32 d0 tc = Inr d1"
      "select [Alias (Col tc) ''taxid'', Col c] d1 = Inr d"
      "preprocess_counts (PolarsDataFrame (fill_null (VInt 0) p)) (unique (get_column d c)) c = Inr res"
    by (auto simp: aggregate_cat_def bindE_eq_Inr Let_def)
  from ensure_int32_cells [OF steps(1)]
  have k: "tc \<in> set (columns d1)" and cells: "\<forall>v \<in> set (get_column d1 tc). taxid_cell v"
    by simp_all
  from steps(2) have d: "d = \<lparr>columns = [''taxid'', tc],
      rows = map (\<lambda>r. [cell (columns d1) r tc, cell (columns d1) r tc]) (rows d1)\<rparr>"
    using select_pair [OF k k tc] by (simp add: eq)
  have col: "get_column d tc = get_column d1 tc"
    using tc by (simp add: d get_column_def cell_def o_def)
  from preprocess_counts_levels [OF steps(3)]
  have "unique (get_column d c) \<noteq> []" "\<forall>l \<in> set (unique (get_column d c)). is_VStr l"
    by simp_all
  then obtain l where "l \<in> set (get_column d1 tc)" "is_VStr l"
    by (cases "get_column d c") (auto simp: unique_def eq col)
  with cells show False
    by (auto simp: is_VStr_def dest!: taxid_cell_cases)
qed

lemma taxid_column_cat:
  assumes "c \<noteq> ''taxid''"
  shows "get_column \<lparr>columns = [''taxid'', c, ''pylifemap_count_type''],
                      rows = count_rows lm d tc c @ (if k then leaf_rows d tc c else [])\<rparr> ''taxid'' =
         map fill0 (ancestor_keys lm d tc) @ (if k then get_column d tc else [])"
  by (simp add: get_column_def count_rows_def leaf_rows_def cell_def o_def)

lemma VInt_in_fill0_keys:
  assumes "wf_lmdata lm" "t \<noteq> 0"
  shows "VInt t \<in> fill0 ` set (ancestor_keys lm d tc) \<longleftrightarrow> descendant_rows lm d tc t \<noteq> []"
proof -
  have "VInt t \<in> fill0 ` set (ancestor_keys lm d tc) \<longleftrightarrow> VInt t \<in> set (ancestor_keys lm d tc)"
    using fill0_eq_VInt [OF assms(2)] by (metis (no_types, lifting) image_iff)
  then show ?thesis by (simp add: VInt_in_ancestor_keys [OF assms(1)])
qed

lemma expand_taxid_cell: "a \<in> set (expand lm x) \<Longrightarrow> taxid_cell a"
  by (auto simp: expand_def matches_def Let_def taxid_cell_def split: if_splits)

lemma group_keys_cells:
  assumes "\<forall>v \<in> set (get_column d t). taxid_cell v"
  shows "\<forall>a \<in> set (group_keys lm d t). taxid_cell a"
  using assms by (auto simp: group_keys_def get_column_def dest: expand_taxid_cell)

lemma aggregate_num_shape:
  assumes obj: "ensure_polars obj = Inr d" and cast: "ensure_int32 d t = Inr d1"
    and c: "c \<in> set (columns d)"
    and ct: "c \<noteq> ''taxid''" and cp: "c \<noteq> ''pylifemap_ascend''"
    and fn: "map_of fn_dict fn = Some f"
  shows "\<exists>g. aggregate_num lm obj c fn t =
           Inr \<lparr>columns = [''taxid'', c],
                rows = sort_rows (\<lambda>r. cell [''taxid'', c] r ''taxid'')
                  (map (\<lambda>a. [a, g a]) (group_keys lm d1 t))\<rparr>"
proof -
  let ?cs = "[''taxid'', c]"
  let ?rs = "map (\<lambda>r. [cell (columns d1) r t, cell (columns d1) r c]) (rows d1)"
  let ?E = "expanded lm ?rs"
  let ?cs3 = "[''taxid'', c, ''pylifemap_ascend'']"
  from ensure_int32_cells [OF cast] have t: "t \<in> set (columns d)" and cols: "columns d1 = columns d"
    by simp_all
  have cs: "?cs = ''taxid'' # [c]" "''pylifemap_ascend'' \<notin> set ?cs" "distinct ?cs"
    using ct cp by auto
  have len: "\<forall>r \<in> set ?rs. length r = length ?cs" by simp
  have keys: "map (\<lambda>r. cell ?cs3 r ''pylifemap_ascend'') ?E =
      concat (map (\<lambda>r. expand lm (cell (columns d1) r t)) (rows d1)) @
      map (\<lambda>r. cell (columns d1) r t) (rows d1)"
    using expanded_keys [OF cs(2) len, of lm] by (simp add: o_def)
  have sel: "select [Alias (Col t) ''taxid'', Col c] d1 = Inr \<lparr>columns = ?cs, rows = ?rs\<rparr>"
    using select_pair [of t d1 c] t c ct cols by simp
  have "aggregate_num lm obj c fn t =
          bindE (group_by_agg [''pylifemap_ascend''] f c
                   \<lparr>columns = ?cs3, rows = ?E\<rparr>) (\<lambda>res.
          bindE (rename [(''pylifemap_ascend'', ''taxid'')] res) (\<lambda>res.
          sort_frame ''taxid'' res))"
    using t c ct fn
    by (simp add: aggregate_num_def obj ensure_column_exists_def
          cast sel expanded_pipeline [OF cs len] del: pl_concat.simps)
  also have "\<dots> = Inr \<lparr>columns = [''taxid'', c],
                rows = sort_rows (\<lambda>r. cell [''taxid'', c] r ''taxid'')
                  (map (\<lambda>a. [a, f (map (\<lambda>r. cell ?cs3 r c)
                                      (filter (\<lambda>r. cell ?cs3 r ''pylifemap_ascend'' = a) ?E))])
                     (group_keys lm d1 t))\<rparr>"
    using ct cp
    by (simp add: group_by_agg_single rename_ascend sort_frame_taxid keys group_keys_def)
  finally show ?thesis by - (rule exI, assumption)
qed

lemma aggregate_count_shape:
  assumes obj: "ensure_polars obj = Inr d" and cast: "ensure_int32 d t = Inr d1"
    and nt: "n \<noteq> ''taxid''" and np: "n \<noteq> ''pylifemap_ascend''"
  shows "\<exists>g. aggregate_count lm obj n t =
           Inr \<lparr>columns = [''taxid'', n],
                rows = sort_rows (\<lambda>r. cell [''taxid'', n] r ''taxid'')
                  (map (\<lambda>a. [a, g a]) (group_keys lm d1 t))\<rparr>"
proof -
  let ?cs = "[''taxid'']"
  let ?rs = "map (\<lambda>r. [cell (columns d1) r t]) (rows d1)"
  let ?E = "expanded lm ?rs"
  let ?cs2 = "[''taxid'', ''pylifemap_ascend'']"
  from ensure_int32_cells [OF cast] have t: "t \<in> set (columns d)" and cols: "columns d1 = columns d"
    by simp_all
  have cs: "?cs = ''taxid'' # []" "''pylifemap_ascend'' \<notin> set ?cs" "distinct ?cs"
    by auto
  have len: "\<forall>r \<in> set ?rs. length r = length ?cs" by simp
  have keys: "map (\<lambda>r. cell ?cs2 r ''pylifemap_ascend'') ?E =
      concat (map (\<lambda>r. expand lm (cell (columns d1) r t)) (rows d1)) @
      map (\<lambda>r. cell (columns d1) r t) (rows d1)"
    using expanded_keys [OF cs(2) len, of lm] by (simp add: o_def)
  have sel: "select [Alias (Col t) ''taxid''] d1 = Inr \<lparr>columns = ?cs, rows = ?rs\<rparr>"
    using select_single [of t d1] t cols by simp
  have "aggregate_count lm obj n t =
          bindE (group_by_len [''pylifemap_ascend''] n
                   \<lparr>columns = ?cs2, rows = ?E\<rparr>) (\<lambda>res.
          bindE (rename [(''pylifemap_ascend'', ''taxid'')] res) (\<lambda>res.
          sort_frame ''taxid'' res))"
    using t
    by (simp add: aggregate_count_def obj ensure_column_exists_def
          cast sel expanded_pipeline [OF cs len] del: pl_concat.simps)
  also have "\<dots> = Inr \<lparr>columns = [''taxid'', n],
                rows = sort_rows (\<lambda>r. cell [''taxid'', n] r ''taxid'')
                  (map (\<lambda>a. [a, VInt (int (length
                                 (filter (\<lambda>r. cell ?cs2 r ''pylifemap_ascend'' = a) ?E)))])
                     (group_keys lm d1 t))\<rparr>"
    using nt np
    by (simp add: group_by_len_single rename_ascend sort_frame_taxid keys group_keys_def)
  finally show ?thesis by - (rule exI, assumption)
qed

lemma aggregate_cat_earlier_error:
  assumes "aggregate_cat lm obj c False tc = Inl e"
  shows "aggregate_cat lm obj c True tc = Inl e"
  using assms
  by (auto simp: aggregate_cat_def bindE_def Let_def split: sum.splits)

section \<open>The claims\<close>

text \<open>
  C1. Let the ancestor table be keyed by taxid and name every ancestor of a taxid once,
  and let the input table have an identifier column of 32-bit integers and a target
  column (not named \<^verbatim>\<open>taxid\<close> or \<^verbatim>\<open>pylifemap_ascend\<close>). Then for each allowed function
  \<open>fn\<close> the call \<^verbatim>\<open>aggregate_num\<close> succeeds, and the one row its result has for a taxid
  \<open>t\<close> holds that function applied to the target cells of exactly the input rows that
  have \<open>t\<close> in their ancestor list together with the input rows whose taxid is \<open>t\<close>; there
  is no row for \<open>t\<close> when there are no such input rows. \<^verbatim>\<open>aggregate_count\<close> gives the
  number of these rows. On the 3-level tree root = 1, A = 2, B = 3, leaf1 = 4, leaf2 = 5,
  leaf3 = 6 with the leaf values 2, 3 and 5, the sum gives root 10, A 5, B 5 and the
  leaves their own values, and the count gives root 3, A 2, B 1 and 1 for each leaf.
\<close>

theorem aggregate_over_subtree:
  assumes lm: "wf_lmdata lm" and obj: "ensure_polars obj = Inr d" and wf: "wf_frame d"
    and tc: "taxid_col \<in> set (columns d)"
    and ok: "\<forall>v \<in> set (get_column d taxid_col). int32_cell v"
    and col: "column \<in> set (columns d)" "column \<noteq> ''taxid''" "column \<noteq> ''pylifemap_ascend''"
    and fn: "map_of fn_dict fn = Some f"
    and rc: "result_col \<noteq> ''taxid''" "result_col \<noteq> ''pylifemap_ascend''"
  shows "(\<exists>res. aggregate_num lm obj column fn taxid_col = Inr res \<and>
            columns res = [''taxid'', column] \<and>
            (\<forall>t. rows_at res (VInt t) =
                   (if subtree_rows lm d taxid_col t = [] then []
                    else [[VInt t, f (map (\<lambda>r. cell (columns d) r column)
                                       (subtree_rows lm d taxid_col t))]]))) \<and>
         (\<exists>res. aggregate_count lm obj result_col taxid_col = Inr res \<and>
            columns res = [''taxid'', result_col] \<and>
            (\<forall>t. rows_at res (VInt t) =
                   (if subtree_rows lm d taxid_col t = [] then []
                    else [[VInt t, VInt (int (length (subtree_rows lm d taxid_col t)))]]))) \<and>
         aggregate_num [(1, []), (2, [1]), (3, [1]), (4, [2, 1]), (5, [2, 1]), (6, [3, 1])]
           (PolarsDataFrame \<lparr>columns = [''taxid'', ''value''],
              rows = [[VInt 4, VInt 2], [VInt 5, VInt 3], [VInt 6, VInt 5]]\<rparr>)
           ''value'' ''sum'' ''taxid'' =
           Inr \<lparr>columns = [''taxid'', ''value''],
                rows = [[VInt 1, VInt 10], [VInt 2, VInt 5], [VInt 3, VInt 5],
                        [VInt 4, VInt 2], [VInt 5, VInt 3], [VInt 6, VInt 5]]\<rparr> \<and>
         aggregate_count [(1, []), (2, [1]), (3, [1]), (4, [2, 1]), (5, [2, 1]), (6, [3, 1])]
           (PolarsDataFrame \<lparr>columns = [''taxid'', ''value''],
              rows = [[VInt 4, VInt 2], [VInt 5, VInt 3], [VInt 6, VInt 5]]\<rparr>)
           ''n'' ''taxid'' =
           Inr \<lparr>columns = [''taxid'', ''n''],
                rows = [[VInt 1, VInt 3], [VInt 2, VInt 2], [VInt 3, VInt 1],
                        [VInt 4, VInt 1], [VInt 5, VInt 1], [VInt 6, VInt 1]]\<rparr>"
proof (intro conjI)
  show "\<exists>res. aggregate_num lm obj column fn taxid_col = Inr res \<and>
            columns res = [''taxid'', column] \<and>
            (\<forall>t. rows_at res (VInt t) =
                   (if subtree_rows lm d taxid_col t = [] then []
                    else [[VInt t, f (map (\<lambda>r. cell (columns d) r column)
                                       (subtree_rows lm d taxid_col t))]]))"
    unfolding aggregate_num_eq [OF obj wf tc col ok fn lm]
    by (simp add: rows_at_result [OF distinct_group_keys] group_keys_iff group_rows_VInt [OF lm])
next
  show "\<exists>res. aggregate_count lm obj result_col taxid_col = Inr res \<and>
            columns res = [''taxid'', result_col] \<and>
            (\<forall>t. rows_at res (VInt t) =
                   (if subtree_rows lm d taxid_col t = [] then []
                    else [[VInt t, VInt (int (length (subtree_rows lm d taxid_col t)))]]))"
    unfolding aggregate_count_eq [OF obj wf tc rc ok lm]
    by (simp add: rows_at_result [OF distinct_group_keys] group_keys_iff group_rows_VInt [OF lm])
next
  show "aggregate_num [(1, []), (2, [1]), (3, [1]), (4, [2, 1]), (5, [2, 1]), (6, [3, 1])]
           (PolarsDataFrame \<lparr>columns = [''taxid'', ''value''],
              rows = [[VInt 4, VInt 2], [VInt 5, VInt 3], [VInt 6, VInt 5]]\<rparr>)
           ''value'' ''sum'' ''taxid'' =
           Inr \<lparr>columns = [''taxid'', ''value''],
                rows = [[VInt 1, VInt 10], [VInt 2, VInt 5], [VInt 3, VInt 5],
                        [VInt 4, VInt 2], [VInt 5, VInt 3], [VInt 6, VInt 5]]\<rparr>"
    by code_simp
next
  show "aggregate_count [(1, []), (2, [1]), (3, [1]), (4, [2, 1]), (5, [2, 1]), (6, [3, 1])]
           (PolarsDataFrame \<lparr>columns = [''taxid'', ''value''],
              rows = [[VInt 4, VInt 2], [VInt 5, VInt 3], [VInt 6, VInt 5]]\<rparr>)
           ''n'' ''taxid'' =
           Inr \<lparr>columns = [''taxid'', ''n''],
                rows = [[VInt 1, VInt 3], [VInt 2, VInt 2], [VInt 3, VInt 1],
                        [VInt 4, VInt 1], [VInt 5, VInt 1], [VInt 6, VInt 1]]\<rparr>"
    by code_simp
qed

theorem aggregate_over_subtree_witness:
  "(\<exists>res. aggregate_num [(1, []), (2, [1]), (3, [1]), (4, [2, 1]), (5, [2, 1]), (6, [3, 1])]
           (PolarsDataFrame \<lparr>columns = [''taxid'', ''value''],
              rows = [[VInt 4, VInt 2], [VInt 5, VInt 3], [VInt 6, VInt 5]]\<rparr>)
           ''value'' ''mean'' ''taxid'' = Inr res \<and>
         rows_at res (VInt 2) = [[VInt 2, VFloat (5 / 2)]] \<and> rows_at res (VInt 7) = []) \<and>
   (\<exists>res. aggregate_count [(1, []), (2, [1]), (3, [1]), (4, [2, 1]), (5, [2, 1]), (6, [3, 1])]
           (PolarsDataFrame \<lparr>columns = [''taxid'', ''value''],
              rows = [[VInt 4, VInt 2], [VInt 5, VInt 3], [VInt 6, VInt 5]]\<rparr>)
           ''n'' ''taxid'' = Inr res \<and>
         rows_at res (VInt 1) = [[VInt 1, VInt 3]])"
proof -
  let ?lm = "[(1, []), (2, [1]), (3, [1]), (4, [2, 1]), (5, [2, 1]), (6, [3, 1])] :: lmdata"
  let ?d = "\<lparr>columns = [''taxid'', ''value''],
              rows = [[VInt 4, VInt 2], [VInt 5, VInt 3], [VInt 6, VInt 5]]\<rparr>"
  have h: "wf_lmdata ?lm" "ensure_polars (PolarsDataFrame ?d) = Inr ?d" "wf_frame ?d"
    "''taxid'' \<in> set (columns ?d)" "\<forall>v \<in> set (get_column ?d ''taxid''). int32_cell v"
    "''value'' \<in> set (columns ?d)" "''value'' \<noteq> ''taxid''" "''value'' \<noteq> ''pylifemap_ascend''"
    "map_of fn_dict ''mean'' = Some pl_mean" "''n'' \<noteq> ''taxid''" "''n'' \<noteq> ''pylifemap_ascend''"
    by (simp_all add: wf_lmdata_def ensure_polars_def wf_frame_def get_column_def cell_def
          int32_cell_def int32_range_def fn_dict_def)
  have s: "subtree_rows ?lm ?d ''taxid'' 2 = [[VInt 4, VInt 2], [VInt 5, VInt 3]]"
    "subtree_rows ?lm ?d ''taxid'' 7 = []"
    "subtree_rows ?lm ?d ''taxid'' 1 = [[VInt 4, VInt 2], [VInt 5, VInt 3], [VInt 6, VInt 5]]"
    by code_simp+
  have m: "pl_mean [VInt 2, VInt 3] = VFloat (5 / 2)"
    by code_simp
  from aggregate_over_subtree [OF h]
  obtain r1 r2 where
    1: "aggregate_num ?lm (PolarsDataFrame ?d) ''value'' ''mean'' ''taxid'' = Inr r1"
      "\<forall>t. rows_at r1 (VInt t) =
                   (if subtree_rows ?lm ?d ''taxid'' t = [] then []
                    else [[VInt t, pl_mean (map (\<lambda>r. cell (columns ?d) r ''value'')
                                       (subtree_rows ?lm ?d ''taxid'' t))]])"
    and 2: "aggregate_count ?lm (PolarsDataFrame ?d) ''n'' ''taxid'' = Inr r2"
      "\<forall>t. rows_at r2 (VInt t) =
                   (if subtree_rows ?lm ?d ''taxid'' t = [] then []
                    else [[VInt t, VInt (int (length (subtree_rows ?lm ?d ''taxid'' t)))]])"
    by blast
  have "rows_at r1 (VInt 2) = [[VInt 2, VFloat (5 / 2)]]"
    using 1(2) [rule_format, of 2] by (simp add: s cell_def m)
  moreover have "rows_at r1 (VInt 7) = []"
    using 1(2) [rule_format, of 7] by (simp add: s)
  moreover have "rows_at r2 (VInt 1) = [[VInt 1, VInt 3]]"
    using 2(2) [rule_format, of 1] by (simp add: s)
  ultimately show ?thesis using 1(1) 2(1) by simp
qed

text \<open>
  C2 (as amended). On every valid input table the result of \<^verbatim>\<open>aggregate_num\<close>, of
  \<^verbatim>\<open>aggregate_count\<close>, and of \<^verbatim>\<open>aggregate_cat\<close> called with \<^verbatim>\<open>keep_leaves\<close> (the identifier
  column being named \<^verbatim>\<open>taxid\<close>) holds every taxid of the input. \<^verbatim>\<open>aggregate_cat\<close> without
  \<^verbatim>\<open>keep_leaves\<close> has no self-inclusion step: a taxid other than 0 is in its result
  exactly when some input row has it in its ancestor list, so an input node that is not
  an ancestor of an input row does not appear.
\<close>

theorem input_taxids_in_result:
  assumes "wf_lmdata lm" and "ensure_polars obj = Inr d" and "wf_frame d"
    and "taxid_col \<in> set (columns d)" and "\<forall>v \<in> set (get_column d taxid_col). int32_cell v"
    and "column \<in> set (columns d)" "column \<noteq> ''taxid''" "column \<noteq> ''pylifemap_ascend''"
    and "map_of fn_dict fn = Some f"
    and "result_col \<noteq> ''taxid''" "result_col \<noteq> ''pylifemap_ascend''"
    and "cat \<in> set (columns d)"
    and "cat \<noteq> ''taxid''" "cat \<noteq> ''pylifemap_ascend''" "cat \<noteq> ''count''"
      "cat \<noteq> ''pylifemap_count_type''"
    and "\<forall>v \<in> set (get_column d cat). is_VStr v"
    and "\<forall>v \<in> set (get_column d cat). str_of v \<notin> {''taxid'', cat, ''pylifemap_count_type''}"
    and "rows d \<noteq> []"
  shows "(\<exists>res. aggregate_num lm obj column fn taxid_col = Inr res \<and>
            set (get_column d taxid_col) \<subseteq> set (get_column res ''taxid'')) \<and>
         (\<exists>res. aggregate_count lm obj result_col taxid_col = Inr res \<and>
            set (get_column d taxid_col) \<subseteq> set (get_column res ''taxid'')) \<and>
         (taxid_col = ''taxid'' \<longrightarrow>
            (\<exists>res. aggregate_cat lm obj cat True taxid_col = Inr res \<and>
               set (get_column d taxid_col) \<subseteq> set (get_column res ''taxid''))) \<and>
         (\<exists>res. aggregate_cat lm obj cat False taxid_col = Inr res \<and>
            (\<forall>t. t \<noteq> 0 \<longrightarrow>
               (VInt t \<in> set (get_column res ''taxid'') \<longleftrightarrow>
                descendant_rows lm d taxid_col t \<noteq> [])))"
proof (intro conjI impI)
  have keys: "\<forall>a \<in> set (group_keys lm d taxid_col). taxid_cell a"
    using group_keys_taxid_cell [OF assms(1,5)] by blast
  show "\<exists>res. aggregate_num lm obj column fn taxid_col = Inr res \<and>
            set (get_column d taxid_col) \<subseteq> set (get_column res ''taxid'')"
    unfolding aggregate_num_eq [OF assms(2,3,4,6,7,8,5,9,1)]
    using taxid_column_sorted [OF keys distinct_group_keys] group_keys_self [of d taxid_col lm]
    by simp
  show "\<exists>res. aggregate_count lm obj result_col taxid_col = Inr res \<and>
            set (get_column d taxid_col) \<subseteq> set (get_column res ''taxid'')"
    unfolding aggregate_count_eq [OF assms(2,3,4,10,11,5,1)]
    using taxid_column_sorted [OF keys distinct_group_keys] group_keys_self [of d taxid_col lm]
    by simp
next
  assume t: "taxid_col = ''taxid''"
  then have kl: "True \<longrightarrow> taxid_col = ''taxid''" by simp
  show "\<exists>res. aggregate_cat lm obj cat True taxid_col = Inr res \<and>
               set (get_column d taxid_col) \<subseteq> set (get_column res ''taxid'')"
    unfolding aggregate_cat_result [OF assms(2,3,4,12,5,1,13-19) kl]
    using taxid_column_cat [OF assms(13), where k = True, of lm d taxid_col] by simp
next
  have kl: "False \<longrightarrow> taxid_col = ''taxid''" by simp
  show "\<exists>res. aggregate_cat lm obj cat False taxid_col = Inr res \<and>
            (\<forall>t. t \<noteq> 0 \<longrightarrow>
               (VInt t \<in> set (get_column res ''taxid'') \<longleftrightarrow>
                descendant_rows lm d taxid_col t \<noteq> []))"
    unfolding aggregate_cat_result [OF assms(2,3,4,12,5,1,13-19) kl]
    using taxid_column_cat [OF assms(13), where k = False, of lm d taxid_col]
    by (simp add: VInt_in_fill0_keys [OF assms(1)])
qed

theorem input_taxids_in_result_witness:
  "(\<exists>res. aggregate_num [(1, []), (2, [1]), (4, [2, 1]), (5, [2, 1])]
       (PolarsDataFrame \<lparr>columns = [''taxid'', ''value'', ''cat''],
          rows = [[VInt 4, VInt 2, VStr ''a''], [VInt 5, VInt 3, VStr ''b'']]\<rparr>)
       ''value'' ''min'' ''taxid'' = Inr res \<and>
     {VInt 4, VInt 5} \<subseteq> set (get_column res ''taxid'')) \<and>
   (\<exists>res. aggregate_count [(1, []), (2, [1]), (4, [2, 1]), (5, [2, 1])]
       (PolarsDataFrame \<lparr>columns = [''taxid'', ''value'', ''cat''],
          rows = [[VInt 4, VInt 2, VStr ''a''], [VInt 5, VInt 3, VStr ''b'']]\<rparr>)
       ''n'' ''taxid'' = Inr res \<and>
     {VInt 4, VInt 5} \<subseteq> set (get_column res ''taxid'')) \<and>
   (\<exists>res. aggregate_cat [(1, []), (2, [1]), (4, [2, 1]), (5, [2, 1])]
       (PolarsDataFrame \<lparr>columns = [''taxid'', ''value'', ''cat''],
          rows = [[VInt 4, VInt 2, VStr ''a''], [VInt 5, VInt 3, VStr ''b'']]\<rparr>)
       ''cat'' True ''taxid'' = Inr res \<and>
     {VInt 4, VInt 5} \<subseteq> set (get_column res ''taxid'')) \<and>
   (\<exists>res. aggregate_cat [(1, []), (2, [1]), (4, [2, 1]), (5, [2, 1])]
       (PolarsDataFrame \<lparr>columns = [''taxid'', ''value'', ''cat''],
          rows = [[VInt 4, VInt 2, VStr ''a''], [VInt 5, VInt 3, VStr ''b'']]\<rparr>)
       ''cat'' False ''taxid'' = Inr res \<and>
     VInt 2 \<in> set (get_column res ''taxid'') \<and> VInt 4 \<notin> set (get_column res ''taxid''))"
proof -
  let ?lm = "[(1, []), (2, [1]), (4, [2, 1]), (5, [2, 1])] :: lmdata"
  let ?d = "\<lparr>columns = [''taxid'', ''value'', ''cat''],
          rows = [[VInt 4, VInt 2, VStr ''a''], [VInt 5, VInt 3, VStr ''b'']]\<rparr>"
  have h: "wf_lmdata ?lm" "ensure_polars (PolarsDataFrame ?d) = Inr ?d" "wf_frame ?d"
    "''taxid'' \<in> set (columns ?d)" "\<forall>v \<in> set (get_column ?d ''taxid''). int32_cell v"
    "''value'' \<in> set (columns ?d)" "''value'' \<noteq> ''taxid''" "''value'' \<noteq> ''pylifemap_ascend''"
    "map_of fn_dict ''min'' = Some pl_min"
    "''n'' \<noteq> ''taxid''" "''n'' \<noteq> ''pylifemap_ascend''"
    "''cat'' \<in> set (columns ?d)"
    "''cat'' \<noteq> ''taxid''" "''cat'' \<noteq> ''pylifemap_ascend''" "''cat'' \<noteq> ''count''"
    "''cat'' \<noteq> ''pylifemap_count_type''"
    "\<forall>v \<in> set (get_column ?d ''cat''). is_VStr v"
    "\<forall>v \<in> set (get_column ?d ''cat''). str_of v \<notin> {''taxid'', ''cat'', ''pylifemap_count_type''}"
    "rows ?d \<noteq> []"
    by (simp_all add: wf_lmdata_def ensure_polars_def wf_frame_def get_column_def cell_def
          int32_cell_def int32_range_def is_VStr_def str_of_def fn_dict_def)
  have g: "get_column ?d ''taxid'' = [VInt 4, VInt 5]"
    by code_simp
  have s: "descendant_rows ?lm ?d ''taxid'' 2 \<noteq> []" "descendant_rows ?lm ?d ''taxid'' 4 = []"
    by code_simp+
  from input_taxids_in_result [OF h] obtain r1 r2 r3 r4 where
    1: "aggregate_num ?lm (PolarsDataFrame ?d) ''value'' ''min'' ''taxid'' = Inr r1"
       "set (get_column ?d ''taxid'') \<subseteq> set (get_column r1 ''taxid'')"
    and 2: "aggregate_count ?lm (PolarsDataFrame ?d) ''n'' ''taxid'' = Inr r2"
       "set (get_column ?d ''taxid'') \<subseteq> set (get_column r2 ''taxid'')"
    and 3: "aggregate_cat ?lm (PolarsDataFrame ?d) ''cat'' True ''taxid'' = Inr r3"
       "set (get_column ?d ''taxid'') \<subseteq> set (get_column r3 ''taxid'')"
    and 4: "aggregate_cat ?lm (PolarsDataFrame ?d) ''cat'' False ''taxid'' = Inr r4"
       "\<forall>t. t \<noteq> 0 \<longrightarrow> (VInt t \<in> set (get_column r4 ''taxid'') \<longleftrightarrow>
                descendant_rows ?lm ?d ''taxid'' t \<noteq> [])"
    by blast
  from 4(2) s have "VInt 2 \<in> set (get_column r4 ''taxid'')" "VInt 4 \<notin> set (get_column r4 ''taxid'')"
    by auto
  with 1 2 3 4(1) show ?thesis
    unfolding g by simp
qed

text \<open>
  C2 as stated fails for \<^verbatim>\<open>aggregate_cat\<close> with its default \<^verbatim>\<open>keep_leaves=False\<close>: the rows
  of the leaves 4 and 5 give aggregated rows for their ancestors 2 and 1 only.
\<close>

theorem leaf_taxid_missing_counterexample:
  "aggregate_cat [(1, []), (2, [1]), (4, [2, 1]), (5, [2, 1])]
     (PolarsDataFrame \<lparr>columns = [''taxid'', ''cat''],
        rows = [[VInt 4, VStr ''a''], [VInt 5, VStr ''b'']]\<rparr>)
     ''cat'' False ''taxid'' =
   Inr \<lparr>columns = [''taxid'', ''cat'', ''pylifemap_count_type''],
        rows = [[VInt 2, VJson [(''a'', VInt 1), (''b'', VInt 1)], VStr ''count''],
                [VInt 1, VJson [(''a'', VInt 1), (''b'', VInt 1)], VStr ''count'']]\<rparr> \<and>
   VInt 4 \<notin> set (get_column
       \<lparr>columns = [''taxid'', ''cat'', ''pylifemap_count_type''],
        rows = [[VInt 2, VJson [(''a'', VInt 1), (''b'', VInt 1)], VStr ''count''],
                [VInt 1, VJson [(''a'', VInt 1), (''b'', VInt 1)], VStr ''count'']]\<rparr> ''taxid'')"
  by code_simp

text \<open>
  C3 (as amended). On a valid input table (an ancestor table keyed by taxid, an identifier
  column of 32-bit integers, a categorical column of strings, and names that do not
  clash with the columns the pipeline builds) the per-category counts that
  \<^verbatim>\<open>aggregate_cat\<close> assigns to a taxid \<open>t\<close> other than 0 count exactly the input rows that
  have \<open>t\<close> in their ancestor list, the rows of \<open>t\<close>'s descendants: \<open>t\<close> has one aggregated
  row when there is such an input row and none otherwise. There is no self-inclusion
  step: a row whose taxid is \<open>t\<close> is counted in the distributions of its ancestors, not
  in \<open>t\<close>'s own. (The taxid 0 also stands for the null key, which
  \<^verbatim>\<open>fill_null(0)\<close> rewrites.)
\<close>

theorem aggregate_cat_counts_descendants:
  assumes "wf_lmdata lm" and "ensure_polars obj = Inr d" and "wf_frame d"
    and "taxid_col \<in> set (columns d)" and "\<forall>v \<in> set (get_column d taxid_col). int32_cell v"
    and "column \<in> set (columns d)"
    and "column \<noteq> ''taxid''" "column \<noteq> ''pylifemap_ascend''" "column \<noteq> ''count''"
      "column \<noteq> ''pylifemap_count_type''"
    and "\<forall>v \<in> set (get_column d column). is_VStr v"
    and "\<forall>v \<in> set (get_column d column). str_of v \<notin> {''taxid'', column, ''pylifemap_count_type''}"
    and "rows d \<noteq> []"
    and "keep_leaves \<longrightarrow> taxid_col = ''taxid''"
    and "t \<noteq> 0"
  shows "\<exists>res. aggregate_cat lm obj column keep_leaves taxid_col = Inr res \<and>
           count_rows_at res (VInt t) =
             (if descendant_rows lm d taxid_col t = [] then []
              else [[VInt t,
                     VJson (map (\<lambda>l. (str_of l, VInt (int (length
                              (filter (\<lambda>r. cell (columns d) r column = l)
                                 (descendant_rows lm d taxid_col t))))))
                            (cat_levels d column)),
                     VStr ''count'']])"
  unfolding aggregate_cat_result [OF assms(2,3,4,6,5,1,7-14)]
  using count_rows_at_result [OF assms(7,10,15,1)] by simp

theorem aggregate_cat_counts_descendants_witness:
  "\<exists>res. aggregate_cat [(1, []), (2, [1]), (4, [2, 1])]
       (PolarsDataFrame \<lparr>columns = [''taxid'', ''cat''], rows = [[VInt 2, VStr ''a''], [VInt 4, VStr ''b'']]\<rparr>)
       ''cat'' True ''taxid'' = Inr res \<and>
     count_rows_at res (VInt 2) = [[VInt 2, VJson [(''a'', VInt 0), (''b'', VInt 1)], VStr ''count'']] \<and>
     count_rows_at res (VInt 4) = []"
proof -
  let ?lm = "[(1, []), (2, [1]), (4, [2, 1])] :: lmdata"
  let ?d = "\<lparr>columns = [''taxid'', ''cat''], rows = [[VInt 2, VStr ''a''], [VInt 4, VStr ''b'']]\<rparr>"
  have h: "wf_lmdata ?lm" "ensure_polars (PolarsDataFrame ?d) = Inr ?d" "wf_frame ?d"
    "''taxid'' \<in> set (columns ?d)" "\<forall>v \<in> set (get_column ?d ''taxid''). int32_cell v"
    "''cat'' \<in> set (columns ?d)"
    "''cat'' \<noteq> ''taxid''" "''cat'' \<noteq> ''pylifemap_ascend''" "''cat'' \<noteq> ''count''"
    "''cat'' \<noteq> ''pylifemap_count_type''"
    "\<forall>v \<in> set (get_column ?d ''cat''). is_VStr v"
    "\<forall>v \<in> set (get_column ?d ''cat''). str_of v \<notin> {''taxid'', ''cat'', ''pylifemap_count_type''}"
    "rows ?d \<noteq> []" "True \<longrightarrow> ''taxid'' = ''taxid''"
    by (simp_all add: wf_lmdata_def ensure_polars_def wf_frame_def get_column_def cell_def
          int32_cell_def int32_range_def is_VStr_def str_of_def)
  have e: "aggregate_cat ?lm (PolarsDataFrame ?d) ''cat'' True ''taxid'' =
      Inr \<lparr>columns = [''taxid'', ''cat'', ''pylifemap_count_type''],
           rows = [[VInt 2, VJson [(''a'', VInt 0), (''b'', VInt 1)], VStr ''count''],
                   [VInt 1, VJson [(''a'', VInt 1), (''b'', VInt 1)], VStr ''count''],
                   [VInt 2, VStr ''a'', VStr ''leaf''],
                   [VInt 4, VStr ''b'', VStr ''leaf'']]\<rparr>"
    by code_simp
  have s: "descendant_rows ?lm ?d ''taxid'' 2 = [[VInt 4, VStr ''b'']]"
    "descendant_rows ?lm ?d ''taxid'' 4 = []"
    "cat_levels ?d ''cat'' = [VStr ''a'', VStr ''b'']"
    by code_simp+
  from aggregate_cat_counts_descendants [OF h, of 2] aggregate_cat_counts_descendants [OF h, of 4]
  show ?thesis
    unfolding e by (simp add: s str_of_def cell_def)
qed

text \<open>
  C3 as stated fails: of the two rows, that of taxid 2 (category a) and that of its
  child 4 (category b), the distribution of 2 counts only the child's: a is 0.
\<close>

theorem own_row_not_counted_counterexample:
  "aggregate_cat [(1, []), (2, [1]), (4, [2, 1])]
     (PolarsDataFrame \<lparr>columns = [''taxid'', ''cat''], rows = [[VInt 2, VStr ''a''], [VInt 4, VStr ''b'']]\<rparr>)
     ''cat'' False ''taxid'' =
   Inr \<lparr>columns = [''taxid'', ''cat'', ''pylifemap_count_type''],
        rows = [[VInt 2, VJson [(''a'', VInt 0), (''b'', VInt 1)], VStr ''count''],
                [VInt 1, VJson [(''a'', VInt 1), (''b'', VInt 1)], VStr ''count'']]\<rparr>"
  by code_simp

text \<open>
  C4 fails on the code. With \<^verbatim>\<open>keep_leaves=True\<close> and the identifier column named
  \<^verbatim>\<open>id\<close>, \<^verbatim>\<open>aggregate_cat\<close> raises a column-not-found error: the leaf rows are selected
  from the projected table, where that column is called \<^verbatim>\<open>taxid\<close>, by its original
  name. On the same rows with the column named \<^verbatim>\<open>taxid\<close> the result is what the claim
  says: the aggregated rows tagged \<^verbatim>\<open>count\<close>, then the input rows tagged \<^verbatim>\<open>leaf\<close>.
\<close>

theorem keep_leaves_other_identifier:
  "aggregate_cat [(1, []), (2, [1]), (4, [2, 1]), (5, [2, 1])]
     (PolarsDataFrame \<lparr>columns = [''id'', ''cat''],
        rows = [[VInt 4, VStr ''a''], [VInt 5, VStr ''b'']]\<rparr>)
     ''cat'' True ''id'' = Inl (ColumnNotFoundError ''id'') \<and>
   aggregate_cat [(1, []), (2, [1]), (4, [2, 1]), (5, [2, 1])]
     (PolarsDataFrame \<lparr>columns = [''taxid'', ''cat''],
        rows = [[VInt 4, VStr ''a''], [VInt 5, VStr ''b'']]\<rparr>)
     ''cat'' True ''taxid'' =
   Inr \<lparr>columns = [''taxid'', ''cat'', ''pylifemap_count_type''],
        rows = [[VInt 2, VJson [(''a'', VInt 1), (''b'', VInt 1)], VStr ''count''],
                [VInt 1, VJson [(''a'', VInt 1), (''b'', VInt 1)], VStr ''count''],
                [VInt 4, VStr ''a'', VStr ''leaf''],
                [VInt 5, VStr ''b'', VStr ''leaf'']]\<rparr>"
  by code_simp

text \<open>
  C5 fails on the code. \<^verbatim>\<open>aggregate_cat\<close> never calls \<^verbatim>\<open>ensure_column_exists\<close>: on a table
  without the identifier column, or without the categorical column, it raises the
  engine's \<^verbatim>\<open>ColumnNotFoundError\<close> and no \<^verbatim>\<open>ValueError\<close>. On the same table
  \<^verbatim>\<open>aggregate_num\<close> and \<^verbatim>\<open>aggregate_count\<close> raise the \<^verbatim>\<open>ValueError\<close> that names the
  column, as the claim says.
\<close>

theorem aggregate_cat_missing_column:
  "aggregate_cat [(1, [])]
     (PolarsDataFrame \<lparr>columns = [''name'', ''cat''], rows = [[VInt 1, VStr ''a'']]\<rparr>)
     ''cat'' False ''taxid'' = Inl (ColumnNotFoundError ''taxid'') \<and>
   aggregate_cat [(1, [])]
     (PolarsDataFrame \<lparr>columns = [''taxid'', ''name''], rows = [[VInt 1, VStr ''a'']]\<rparr>)
     ''cat'' False ''taxid'' = Inl (ColumnNotFoundError ''cat'') \<and>
   aggregate_num [(1, [])]
     (PolarsDataFrame \<lparr>columns = [''name'', ''cat''], rows = [[VInt 1, VStr ''a'']]\<rparr>)
     ''cat'' ''sum'' ''taxid'' = Inl (ValueError ''taxid is not a column of the DataFrame.'') \<and>
   aggregate_count [(1, [])]
     (PolarsDataFrame \<lparr>columns = [''name'', ''cat''], rows = [[VInt 1, VStr ''a'']]\<rparr>)
     ''n'' ''taxid'' = Inl (ValueError ''taxid is not a column of the DataFrame.'')"
  by code_simp

text \<open>
  C6 (as amended). On every input table that has the target column and the identifier
  column and whose identifier column casts to 32-bit integers, \<^verbatim>\<open>aggregate_num\<close> raises a
  \<^verbatim>\<open>ValueError\<close> whenever the target column is named \<^verbatim>\<open>taxid\<close>, whatever \<open>fn\<close> is; and
  when the target column is not named \<^verbatim>\<open>taxid\<close>, for every \<open>fn\<close> outside
  sum, mean, min, max, median it raises a \<^verbatim>\<open>ValueError\<close> whose message lists the allowed
  set.
\<close>

theorem aggregate_num_rejects:
  assumes "ensure_polars obj = Inr d"
    and "column \<in> set (columns d)" and "taxid_col \<in> set (columns d)"
    and "ensure_int32 d taxid_col = Inr d'"
  shows "(column = ''taxid'' \<longrightarrow>
            aggregate_num lm obj column fn taxid_col =
              Inl (ValueError
                ''Can't aggregate on the taxid column, please make a copy and rename it before.'')) \<and>
         (column \<noteq> ''taxid'' \<and> fn \<notin> {''sum'', ''mean'', ''min'', ''max'', ''median''} \<longrightarrow>
            aggregate_num lm obj column fn taxid_col =
              Inl (ValueError
                ''fn value must be one of dict_keys(['sum', 'mean', 'min', 'max', 'median']).''))"
  using assms
  by (auto simp add: aggregate_num_def ensure_column_exists_def map_of_fn_dict_None)

theorem aggregate_num_rejects_witness:
  "aggregate_num [(1, [])]
     (PandasDataFrame \<lparr>columns = [''taxid'', ''value''], rows = [[VInt 1, VInt 7]]\<rparr>)
     ''taxid'' ''sum'' ''taxid'' =
     Inl (ValueError
       ''Can't aggregate on the taxid column, please make a copy and rename it before.'') \<and>
   aggregate_num [(1, [])]
     (PandasDataFrame \<lparr>columns = [''taxid'', ''value''], rows = [[VInt 1, VInt 7]]\<rparr>)
     ''value'' ''bogus'' ''taxid'' =
     Inl (ValueError
       ''fn value must be one of dict_keys(['sum', 'mean', 'min', 'max', 'median']).'')"
proof -
  let ?d = "\<lparr>columns = [''taxid'', ''value''], rows = [[VInt 1, VInt 7]]\<rparr>"
  have h: "ensure_polars (PandasDataFrame ?d) = Inr ?d"
    "''taxid'' \<in> set (columns ?d)" "''value'' \<in> set (columns ?d)"
    by (simp_all add: ensure_polars_def)
  have c: "ensure_int32 ?d ''taxid'' = Inr ?d"
    by code_simp
  from aggregate_num_rejects [OF h(1) h(2) h(2) c, of "[(1, [])]" "''sum''"]
    aggregate_num_rejects [OF h(1) h(3) h(2) c, of "[(1, [])]" "''bogus''"]
  show ?thesis by simp
qed

text \<open>
  C6 as stated fails: the checks run in a fixed order, so with the target column
  \<^verbatim>\<open>taxid\<close> and the function \<^verbatim>\<open>bogus\<close> the error is the one about the reserved column,
  and its message does not list the allowed functions.
\<close>

theorem fn_message_counterexample:
  "aggregate_num [(1, [])]
     (PolarsDataFrame \<lparr>columns = [''taxid'', ''value''], rows = [[VInt 1, VInt 7]]\<rparr>)
     ''taxid'' ''bogus'' ''taxid'' =
     Inl (ValueError
       ''Can't aggregate on the taxid column, please make a copy and rename it before.'')"
  by code_simp

text \<open>
  C7 (as amended). An input row whose taxid has no ancestors in the mapping (the root, a
  taxid absent from the mapping) is not dropped by the left join and \<^verbatim>\<open>explode\<close>: it
  gives one row whose ancestor is null. These rows, with the rows whose own taxid is
  null, form the group of the null key. So the result of \<^verbatim>\<open>aggregate_num\<close> and of
  \<^verbatim>\<open>aggregate_count\<close> has exactly one row with a null taxid as soon as the input has such
  a row, holding the function (the count) over them, and it has none otherwise.
\<close>

theorem orphans_grouped_under_null:
  assumes lm: "wf_lmdata lm" and obj: "ensure_polars obj = Inr d" and wf: "wf_frame d"
    and tc: "taxid_col \<in> set (columns d)"
    and ok: "\<forall>v \<in> set (get_column d taxid_col). int32_cell v"
    and col: "column \<in> set (columns d)" "column \<noteq> ''taxid''" "column \<noteq> ''pylifemap_ascend''"
    and fn: "map_of fn_dict fn = Some f"
    and rc: "result_col \<noteq> ''taxid''" "result_col \<noteq> ''pylifemap_ascend''"
  shows "(\<exists>res. aggregate_num lm obj column fn taxid_col = Inr res \<and>
            rows_at res VNull =
              (if orphan_rows lm d taxid_col = [] then []
               else [[VNull, f (map (\<lambda>r. cell (columns d) r column) (orphan_rows lm d taxid_col))]])) \<and>
         (\<exists>res. aggregate_count lm obj result_col taxid_col = Inr res \<and>
            rows_at res VNull =
              (if orphan_rows lm d taxid_col = [] then []
               else [[VNull, VInt (int (length (orphan_rows lm d taxid_col)))]]))"
  unfolding aggregate_num_eq [OF obj wf tc col ok fn lm]
    aggregate_count_eq [OF obj wf tc rc ok lm]
  by (simp add: rows_at_result [OF distinct_group_keys] group_keys_iff group_rows_VNull [OF lm])

theorem orphans_grouped_under_null_witness:
  "(\<exists>res. aggregate_num [(1, []), (2, [1])]
           (PolarsDataFrame \<lparr>columns = [''taxid'', ''value''],
              rows = [[VInt 1, VInt 7], [VInt 2, VInt 3], [VInt 9, VInt 4]]\<rparr>)
           ''value'' ''sum'' ''taxid'' = Inr res \<and>
         rows_at res VNull = [[VNull, VInt 11]]) \<and>
   (\<exists>res. aggregate_count [(1, []), (2, [1])]
           (PolarsDataFrame \<lparr>columns = [''taxid'', ''value''],
              rows = [[VInt 1, VInt 7], [VInt 2, VInt 3], [VInt 9, VInt 4]]\<rparr>)
           ''n'' ''taxid'' = Inr res \<and>
         rows_at res VNull = [[VNull, VInt 2]])"
proof -
  let ?lm = "[(1, []), (2, [1])] :: lmdata"
  let ?d = "\<lparr>columns = [''taxid'', ''value''],
              rows = [[VInt 1, VInt 7], [VInt 2, VInt 3], [VInt 9, VInt 4]]\<rparr>"
  have h: "wf_lmdata ?lm" "ensure_polars (PolarsDataFrame ?d) = Inr ?d" "wf_frame ?d"
    "''taxid'' \<in> set (columns ?d)" "\<forall>v \<in> set (get_column ?d ''taxid''). int32_cell v"
    "''value'' \<in> set (columns ?d)" "''value'' \<noteq> ''taxid''" "''value'' \<noteq> ''pylifemap_ascend''"
    "map_of fn_dict ''sum'' = Some pl_sum" "''n'' \<noteq> ''taxid''" "''n'' \<noteq> ''pylifemap_ascend''"
    by (simp_all add: wf_lmdata_def ensure_polars_def wf_frame_def get_column_def cell_def
          int32_cell_def int32_range_def fn_dict_def)
  have s: "orphan_rows ?lm ?d ''taxid'' = [[VInt 1, VInt 7], [VInt 9, VInt 4]]"
    by code_simp
  have m: "pl_sum [VInt 7, VInt 4] = VInt 11"
    by code_simp
  from orphans_grouped_under_null [OF h] show ?thesis
    by (simp add: s m cell_def)
qed

text \<open>
  C7 as stated fails: with the root (taxid 1, no ancestors) among the input rows, both
  results hold a row for the null taxid.
\<close>

theorem null_taxid_row_counterexample:
  "aggregate_num [(1, []), (2, [1])]
     (PolarsDataFrame \<lparr>columns = [''taxid'', ''value''], rows = [[VInt 1, VInt 7], [VInt 2, VInt 3]]\<rparr>)
     ''value'' ''sum'' ''taxid'' =
     Inr \<lparr>columns = [''taxid'', ''value''],
          rows = [[VNull, VInt 7], [VInt 1, VInt 10], [VInt 2, VInt 3]]\<rparr> \<and>
   aggregate_count [(1, []), (2, [1])]
     (PolarsDataFrame \<lparr>columns = [''taxid'', ''value''], rows = [[VInt 1, VInt 7], [VInt 2, VInt 3]]\<rparr>)
     ''n'' ''taxid'' =
     Inr \<lparr>columns = [''taxid'', ''n''],
          rows = [[VNull, VInt 1], [VInt 1, VInt 2], [VInt 2, VInt 1]]\<rparr>"
  by code_simp

text \<open>
  C8 (as amended). \<^verbatim>\<open>ensure_int32\<close> casts the identifier column with the engine's strict
  cast. On a table whose identifier column holds integers (or nulls) it returns the table
  unchanged when every identifier fits in 32 bits, and it raises the engine's
  \<^verbatim>\<open>InvalidOperationError\<close> as soon as one identifier does not fit: nothing is truncated.
  Every entry point then raises this error too (\<^verbatim>\<open>aggregate_num\<close> once its target column
  is found).
\<close>

theorem ensure_int32_strict:
  assumes "wf_frame d" and "taxid_col \<in> set (columns d)"
    and "\<forall>v \<in> set (get_column d taxid_col). v = VNull \<or> (\<exists>i. v = VInt i)"
  shows "ensure_int32 d taxid_col =
           (if \<forall>v \<in> set (get_column d taxid_col). int32_cell v then Inr d
            else Inl (InvalidOperationError taxid_col)) \<and>
         (\<not> (\<forall>v \<in> set (get_column d taxid_col). int32_cell v) \<longrightarrow>
            (column \<in> set (columns d) \<longrightarrow>
               aggregate_num lm (PolarsDataFrame d) column fn taxid_col =
                 Inl (InvalidOperationError taxid_col)) \<and>
            aggregate_count lm (PolarsDataFrame d) result_col taxid_col =
              Inl (InvalidOperationError taxid_col) \<and>
            aggregate_cat lm (PolarsDataFrame d) column keep_leaves taxid_col =
              Inl (InvalidOperationError taxid_col))"
proof (intro conjI impI)
  show "ensure_int32 d taxid_col =
           (if \<forall>v \<in> set (get_column d taxid_col). int32_cell v then Inr d
            else Inl (InvalidOperationError taxid_col))"
    using assms by (auto simp: ensure_int32_id ensure_int32_raises)
next
  assume bad: "\<not> (\<forall>v \<in> set (get_column d taxid_col). int32_cell v)"
  then have e: "ensure_int32 d taxid_col = Inl (InvalidOperationError taxid_col)"
    using assms by (auto simp: ensure_int32_raises)
  show "aggregate_count lm (PolarsDataFrame d) result_col taxid_col =
          Inl (InvalidOperationError taxid_col)"
    using assms(2) by (simp add: aggregate_count_def ensure_polars_def ensure_column_exists_def e)
  show "aggregate_cat lm (PolarsDataFrame d) column keep_leaves taxid_col =
          Inl (InvalidOperationError taxid_col)"
    by (simp add: aggregate_cat_def ensure_polars_def e)
  assume "column \<in> set (columns d)"
  then show "aggregate_num lm (PolarsDataFrame d) column fn taxid_col =
          Inl (InvalidOperationError taxid_col)"
    using assms(2) by (simp add: aggregate_num_def ensure_polars_def ensure_column_exists_def e)
qed

theorem ensure_int32_strict_witness:
  "ensure_int32 \<lparr>columns = [''taxid'', ''v''], rows = [[VInt 7, VInt 1], [VInt (2 ^ 31), VInt 2]]\<rparr> ''taxid''
     = Inl (InvalidOperationError ''taxid'') \<and>
   aggregate_num [(7, [])]
     (PolarsDataFrame \<lparr>columns = [''taxid'', ''v''], rows = [[VInt 7, VInt 1], [VInt (2 ^ 31), VInt 2]]\<rparr>)
     ''v'' ''sum'' ''taxid'' = Inl (InvalidOperationError ''taxid'') \<and>
   ensure_int32 \<lparr>columns = [''taxid'', ''v''], rows = [[VInt 7, VInt 1], [VInt (2 ^ 31 - 1), VInt 2]]\<rparr> ''taxid''
     = Inr \<lparr>columns = [''taxid'', ''v''], rows = [[VInt 7, VInt 1], [VInt (2 ^ 31 - 1), VInt 2]]\<rparr>"
  using ensure_int32_strict [of "\<lparr>columns = [''taxid'', ''v''], rows = [[VInt 7, VInt 1], [VInt (2 ^ 31), VInt 2]]\<rparr>" "''taxid''" "''v''" "[(7, [])]" "''sum''"]
    ensure_int32_strict [of "\<lparr>columns = [''taxid'', ''v''], rows = [[VInt 7, VInt 1], [VInt (2 ^ 31 - 1), VInt 2]]\<rparr>" "''taxid''"]
  by (simp add: wf_frame_def get_column_def cell_def int32_cell_def int32_range_def)

text \<open>
  C8 as stated fails: with the identifier \<open>2\<^sup>3\<^sup>1\<close>, which does not fit in 32 bits, the call
  raises instead of returning a table with a truncated identifier.
\<close>

theorem ensure_int32_truncates_counterexample:
  "ensure_int32 \<lparr>columns = [''taxid''], rows = [[VInt (2 ^ 31)]]\<rparr> ''taxid''
     = Inl (InvalidOperationError ''taxid'')"
  by code_simp

text \<open>
  C9. For every input table that passes the checks of the entry points (the identifier
  column casts to 32-bit integers, the target column is present and not named
  \<^verbatim>\<open>taxid\<close> or \<^verbatim>\<open>pylifemap_ascend\<close>, the function is an allowed one, the result
  column is not named so either) and for every ancestor table, the calls
  \<^verbatim>\<open>aggregate_num\<close> and \<^verbatim>\<open>aggregate_count\<close> succeed and their result is sorted by the
  \<^verbatim>\<open>taxid\<close> column in ascending order, a null taxid first; no taxid has two rows.
\<close>

theorem aggregate_sorted_by_taxid:
  assumes obj: "ensure_polars obj = Inr d" and cast: "ensure_int32 d taxid_col = Inr d'"
    and col: "column \<in> set (columns d)" "column \<noteq> ''taxid''" "column \<noteq> ''pylifemap_ascend''"
    and fn: "map_of fn_dict fn = Some f"
    and rc: "result_col \<noteq> ''taxid''" "result_col \<noteq> ''pylifemap_ascend''"
  shows "(\<exists>res. aggregate_num lm obj column fn taxid_col = Inr res \<and>
            sorted_wrt taxid_le (get_column res ''taxid'') \<and>
            distinct (get_column res ''taxid'')) \<and>
         (\<exists>res. aggregate_count lm obj result_col taxid_col = Inr res \<and>
            sorted_wrt taxid_le (get_column res ''taxid'') \<and>
            distinct (get_column res ''taxid''))"
proof -
  from ensure_int32_cells [OF cast]
  have "\<forall>v \<in> set (get_column d' taxid_col). taxid_cell v" by simp
  then have keys: "\<forall>a \<in> set (group_keys lm d' taxid_col). taxid_cell a"
    by (rule group_keys_cells)
  from aggregate_num_shape [OF obj cast col fn, of lm] obtain g where
    1: "aggregate_num lm obj column fn taxid_col =
          Inr \<lparr>columns = [''taxid'', column],
               rows = sort_rows (\<lambda>r. cell [''taxid'', column] r ''taxid'')
                        (map (\<lambda>a. [a, g a]) (group_keys lm d' taxid_col))\<rparr>" ..
  from aggregate_count_shape [OF obj cast rc, of lm] obtain h where
    2: "aggregate_count lm obj result_col taxid_col =
          Inr \<lparr>columns = [''taxid'', result_col],
               rows = sort_rows (\<lambda>r. cell [''taxid'', result_col] r ''taxid'')
                        (map (\<lambda>a. [a, h a]) (group_keys lm d' taxid_col))\<rparr>" ..
  show ?thesis
    unfolding 1 2
    using taxid_column_sorted [OF keys distinct_group_keys, of column g]
      taxid_column_sorted [OF keys distinct_group_keys, of result_col h]
    by simp
qed

theorem aggregate_sorted_by_taxid_witness:
  "(\<exists>res. aggregate_num [(1, []), (2, [1]), (4, [2, 1]), (5, [2, 1])]
           (PolarsDataFrame \<lparr>columns = [''value'', ''taxid''],
              rows = [[VInt 2, VInt 5], [VInt 3, VStr ''4''], [VInt 5, VInt 1]]\<rparr>)
           ''value'' ''max'' ''taxid'' = Inr res \<and>
         sorted_wrt taxid_le (get_column res ''taxid'') \<and>
         get_column res ''taxid'' = [VNull, VInt 1, VInt 2, VInt 4, VInt 5]) \<and>
   (\<exists>res. aggregate_count [(1, []), (2, [1]), (4, [2, 1]), (5, [2, 1])]
           (PolarsDataFrame \<lparr>columns = [''value'', ''taxid''],
              rows = [[VInt 2, VInt 5], [VInt 3, VStr ''4''], [VInt 5, VInt 1]]\<rparr>)
           ''n'' ''taxid'' = Inr res \<and>
         sorted_wrt taxid_le (get_column res ''taxid'') \<and>
         get_column res ''taxid'' = [VNull, VInt 1, VInt 2, VInt 4, VInt 5])"
proof -
  let ?lm = "[(1, []), (2, [1]), (4, [2, 1]), (5, [2, 1])] :: lmdata"
  let ?d = "\<lparr>columns = [''value'', ''taxid''],
              rows = [[VInt 2, VInt 5], [VInt 3, VStr ''4''], [VInt 5, VInt 1]]\<rparr>"
  let ?d' = "\<lparr>columns = [''value'', ''taxid''],
              rows = [[VInt 2, VInt 5], [VInt 3, VInt 4], [VInt 5, VInt 1]]\<rparr>"
  have h: "ensure_polars (PolarsDataFrame ?d) = Inr ?d"
    "''value'' \<in> set (columns ?d)" "''value'' \<noteq> ''taxid''" "''value'' \<noteq> ''pylifemap_ascend''"
    "map_of fn_dict ''max'' = Some pl_max" "''n'' \<noteq> ''taxid''" "''n'' \<noteq> ''pylifemap_ascend''"
    by (simp_all add: ensure_polars_def fn_dict_def)
  have c: "ensure_int32 ?d ''taxid'' = Inr ?d'"
    by code_simp
  have e1: "aggregate_num ?lm (PolarsDataFrame ?d) ''value'' ''max'' ''taxid'' =
      Inr \<lparr>columns = [''taxid'', ''value''],
           rows = [[VNull, VInt 5], [VInt 1, VInt 5], [VInt 2, VInt 3], [VInt 4, VInt 3], [VInt 5, VInt 2]]\<rparr>"
    by code_simp
  have e2: "aggregate_count ?lm (PolarsDataFrame ?d) ''n'' ''taxid'' =
      Inr \<lparr>columns = [''taxid'', ''n''],
           rows = [[VNull, VInt 1], [VInt 1, VInt 3], [VInt 2, VInt 2], [VInt 4, VInt 1], [VInt 5, VInt 1]]\<rparr>"
    by code_simp
  from aggregate_sorted_by_taxid [OF h(1) c h(2-7), where lm = ?lm] show ?thesis
    unfolding e1 e2 by (simp add: get_column_def cell_def)
qed

text \<open>
  C10. \<^verbatim>\<open>aggregate_cat\<close> with \<^verbatim>\<open>keep_leaves=True\<close> succeeds only when the identifier column
  is named \<^verbatim>\<open>taxid\<close>: for every input and every other \<open>taxid_col\<close> the call raises. The
  leaf rows are selected by the original identifier column name from the table in which
  that column has been renamed to \<^verbatim>\<open>taxid\<close>, so whenever the input is one on which the
  call succeeds without \<^verbatim>\<open>keep_leaves\<close>, the error is the engine's column-not-found
  error for \<open>taxid_col\<close>. On an input on which the call without \<^verbatim>\<open>keep_leaves\<close> raises,
  the call with \<^verbatim>\<open>keep_leaves=True\<close> raises that same, earlier error.
\<close>

theorem keep_leaves_needs_taxid:
  assumes "taxid_col \<noteq> ''taxid''"
  shows "(\<exists>e. aggregate_cat lm obj column True taxid_col = Inl e) \<and>
         ((\<exists>res. aggregate_cat lm obj column False taxid_col = Inr res) \<longrightarrow>
            aggregate_cat lm obj column True taxid_col = Inl (ColumnNotFoundError taxid_col)) \<and>
         (aggregate_cat lm obj column False taxid_col = Inl e \<longrightarrow>
            aggregate_cat lm obj column True taxid_col = Inl e)"
proof (intro conjI impI)
  show "\<exists>e. aggregate_cat lm obj column True taxid_col = Inl e"
    using aggregate_cat_leaves_fail [OF assms, of lm obj column]
    by (cases "aggregate_cat lm obj column True taxid_col") auto
next
  assume "\<exists>res. aggregate_cat lm obj column False taxid_col = Inr res"
  then obtain res where res: "aggregate_cat lm obj column False taxid_col = Inr res" ..
  from aggregate_cat_leaves_error [OF res assms aggregate_cat_column_differs [OF res assms]]
  show "aggregate_cat lm obj column True taxid_col = Inl (ColumnNotFoundError taxid_col)" .
next
  assume "aggregate_cat lm obj column False taxid_col = Inl e"
  then show "aggregate_cat lm obj column True taxid_col = Inl e"
    by (rule aggregate_cat_earlier_error)
qed

theorem keep_leaves_needs_taxid_witness:
  "aggregate_cat [(1, []), (2, [1]), (4, [2, 1]), (5, [2, 1])]
     (PolarsDataFrame \<lparr>columns = [''id'', ''cat''], rows = [[VInt 4, VStr ''a''], [VInt 5, VStr ''b'']]\<rparr>)
     ''cat'' False ''id'' =
     Inr \<lparr>columns = [''taxid'', ''cat'', ''pylifemap_count_type''],
          rows = [[VInt 2, VJson [(''a'', VInt 1), (''b'', VInt 1)], VStr ''count''],
                  [VInt 1, VJson [(''a'', VInt 1), (''b'', VInt 1)], VStr ''count'']]\<rparr> \<and>
   aggregate_cat [(1, []), (2, [1]), (4, [2, 1]), (5, [2, 1])]
     (PolarsDataFrame \<lparr>columns = [''id'', ''cat''], rows = [[VInt 4, VStr ''a''], [VInt 5, VStr ''b'']]\<rparr>)
     ''cat'' True ''id'' = Inl (ColumnNotFoundError ''id'') \<and>
   aggregate_cat [(1, []), (2, [1]), (4, [2, 1]), (5, [2, 1])] OtherObject ''cat'' False ''id'' =
     Inl (TypeError ''data must be a pandas or polars DataFrame.'') \<and>
   aggregate_cat [(1, []), (2, [1]), (4, [2, 1]), (5, [2, 1])] OtherObject ''cat'' True ''id'' =
     Inl (TypeError ''data must be a pandas or polars DataFrame.'')"
proof -
  let ?lm = "[(1, []), (2, [1]), (4, [2, 1]), (5, [2, 1])] :: lmdata"
  let ?obj = "PolarsDataFrame \<lparr>columns = [''id'', ''cat''], rows = [[VInt 4, VStr ''a''], [VInt 5, VStr ''b'']]\<rparr>"
  let ?e = "TypeError ''data must be a pandas or polars DataFrame.''"
  have ne: "''id'' \<noteq> ''taxid''" by simp
  have e1: "aggregate_cat ?lm ?obj ''cat'' False ''id'' =
     Inr \<lparr>columns = [''taxid'', ''cat'', ''pylifemap_count_type''],
          rows = [[VInt 2, VJson [(''a'', VInt 1), (''b'', VInt 1)], VStr ''count''],
                  [VInt 1, VJson [(''a'', VInt 1), (''b'', VInt 1)], VStr ''count'']]\<rparr>"
    by code_simp
  have e2: "aggregate_cat ?lm OtherObject ''cat'' False ''id'' = Inl ?e"
    by (simp add: aggregate_cat_def ensure_polars_def bindE_def)
  from keep_leaves_needs_taxid [OF ne, of ?lm ?obj "''cat''"] e1
  have 1: "aggregate_cat ?lm ?obj ''cat'' True ''id'' = Inl (ColumnNotFoundError ''id'')"
    by simp
  from keep_leaves_needs_taxid [OF ne, of ?lm OtherObject "''cat''" ?e] e2
  have 2: "aggregate_cat ?lm OtherObject ''cat'' True ''id'' = Inl ?e"
    by simp
  from e1 1 e2 2 show ?thesis by simp
qed

text \<open>
  C10, as stated for every input table, fails: the cast of the identifier column runs
  before the leaf rows are selected, so for a table whose identifier \<open>2^31\<close> does not fit
  in 32 bits the call with \<^verbatim>\<open>taxid_col="id"\<close> and \<^verbatim>\<open>keep_leaves=True\<close> raises the error
  of the strict cast, not a column-not-found error.
\<close>

theorem keep_leaves_cast_error_counterexample:
  "aggregate_cat [(1, []), (2, [1])]
     (PolarsDataFrame \<lparr>columns = [''id'', ''cat''], rows = [[VInt 2147483648, VStr ''a'']]\<rparr>)
     ''cat'' True ''id'' = Inl (InvalidOperationError ''id'') \<and>
   aggregate_cat [(1, []), (2, [1])]
     (PolarsDataFrame \<lparr>columns = [''id'', ''cat''], rows = [[VInt 2147483648, VStr ''a'']]\<rparr>)
     ''cat'' True ''id'' \<noteq> Inl (ColumnNotFoundError ''id'')"
proof -
  have "aggregate_cat [(1, []), (2, [1])]
     (PolarsDataFrame \<lparr>columns = [''id'', ''cat''], rows = [[VInt 2147483648, VStr ''a'']]\<rparr>)
     ''cat'' True ''id'' = Inl (InvalidOperationError ''id'')"
    by code_simp
  then show ?thesis by simp
qed

end
